theory Spec2Isabelle
  imports Main "HOL-Library.Log_Nat" "HOL-Library.Signed_Division"
begin

section \<open>Errors\<close>

text \<open>
  The Go code reports failure through values of the interface type \<open>error\<close>; the model
  keeps one constructor for each place where the sources build or pass on an error.
  \<open>ContextCanceled\<close> is \<open>ctx.Err()\<close> of the context created by \<open>signal.NotifyContext\<close>.
\<close>

datatype error =
    ContextCanceled
  | ImageDownloadFailed
  | RequestFailed
  | InvalidJSON
  | TelegramAPIError
  | TwitchAPIError
  | BroadcasterNotFound
  | SimulatedEnd


section \<open>The retry executor (\<open>retryWithBackoff\<close>, monitor.go)\<close>

text \<open>
  \<open>retryWithBackoff\<close> receives the operation as a closure and blocks in
  \<open>select\<close> on \<open>ctx.Done()\<close> and \<open>time.After\<close>. Both act on the outside world, so
  the model threads a state \<open>'w\<close> through them: an operation maps the state to its error
  (\<open>None\<close> for \<open>nil\<close>) and the new state; a timer started for \<open>delay\<close> seconds tells
  whether \<open>ctx.Done()\<close> fired before it elapsed. The second loop of the source has no
  exit but \<open>return\<close>; it is a partial function, and \<open>None\<close> at the outermost level
  means that the call never returns.
\<close>

type_synonym 'w operation = "'w \<Rightarrow> error option \<times> 'w"
type_synonym 'w timer = "nat \<Rightarrow> 'w \<Rightarrow> bool \<times> 'w"

partial_function (option) retryForever ::
  "'w operation \<Rightarrow> 'w timer \<Rightarrow> 'w \<Rightarrow> (error option \<times> 'w) option" where
  "retryForever operation after w =
     (case operation w of
        (None, w1) \<Rightarrow> Some (None, w1)
      | (Some err, w1) \<Rightarrow>
          (case after 60 w1 of
             (done, w2) \<Rightarrow>
               if done then Some (Some ContextCanceled, w2)
               else retryForever operation after w2))"

declare retryForever.simps [code]

fun retrySchedule ::
  "'w operation \<Rightarrow> 'w timer \<Rightarrow> nat list \<Rightarrow> 'w \<Rightarrow> (error option \<times> 'w) option" where
  "retrySchedule operation after [] w = retryForever operation after w"
| "retrySchedule operation after (delay # rest) w =
     (case operation w of
        (None, w1) \<Rightarrow> Some (None, w1)
      | (Some err, w1) \<Rightarrow>
          (case after delay w1 of
             (done, w2) \<Rightarrow>
               if done then Some (Some ContextCanceled, w2)
               else retrySchedule operation after rest w2))"

definition delays :: "nat list" where
  "delays = [1, 3, 5, 10, 15, 30, 45, 60]"

definition retryWithBackoff ::
  "'w operation \<Rightarrow> 'w timer \<Rightarrow> 'w \<Rightarrow> (error option \<times> 'w) option" where
  "retryWithBackoff operation after w = retrySchedule operation after delays w"

text \<open>
  The world of one delivery: \<open>replies k\<close> is what the outside answers to the \<open>k\<close>-th
  invocation of the operation, \<open>ctxDone k\<close> tells whether the context is cancelled before
  the \<open>k\<close>-th wait elapses. The two counters record what the executor did: how often the
  operation was invoked and which waits were begun, in order. The closures that the monitor
  passes call a function of the messaging client, which returns a value and an error;
  \<open>attempt f\<close> is such a closure: it applies \<open>f\<close> to the next reply, assigns the
  value to the variable it has captured and returns the error.
\<close>

record ('r, 'v) world =
  replies :: "nat \<Rightarrow> 'r"
  ctxDone :: "nat \<Rightarrow> bool"
  invocations :: nat
  waits :: "nat list"
  captured :: 'v

definition timeAfter :: "nat \<Rightarrow> ('r, 'v) world \<Rightarrow> bool \<times> ('r, 'v) world" where
  "timeAfter delay w = (ctxDone w (length (waits w)), w\<lparr>waits := waits w @ [delay]\<rparr>)"

definition attempt :: "('r \<Rightarrow> 'v \<times> error option) \<Rightarrow> ('r, 'v) world \<Rightarrow> error option \<times> ('r, 'v) world" where
  "attempt f w =
     (case f (replies w (invocations w)) of
        (v, err) \<Rightarrow> (err, w\<lparr>invocations := Suc (invocations w), captured := v\<rparr>))"

definition world0 :: "(nat \<Rightarrow> 'r) \<Rightarrow> (nat \<Rightarrow> bool) \<Rightarrow> 'v \<Rightarrow> ('r, 'v) world" where
  "world0 rs cs v = \<lparr>replies = rs, ctxDone = cs, invocations = 0, waits = [], captured = v\<rparr>"



section \<open>Go's numbers\<close>

subsection \<open>\<open>int\<close>\<close>

text \<open>
  Go's \<open>int\<close> has 64 bits on the platforms the bot is built for. The model keeps
  integers as \<open>int\<close> and writes the wrap-around out where the source adds or multiplies:
  \<open>int64 k\<close> is the two's complement value that a 64-bit register holds for \<open>k\<close>.
  Go's \<open>/\<close> truncates towards zero; that is \<open>sdiv\<close>.
\<close>

definition int64 :: "int \<Rightarrow> int" where
  "int64 k = (k + 2 ^ 63) mod 2 ^ 64 - 2 ^ 63"

subsection \<open>\<open>float64\<close>\<close>

text \<open>
  IEEE 754 binary64 with the default rounding, to nearest and ties to even. A finite value
  is the rational number it denotes. The sign of zero is not represented: \<open>Finite 0\<close>
  stands for \<open>+0\<close>, which is the only zero that the modelled computations produce (they
  convert integers, add, subtract and divide by positive numbers, and under rounding to
  nearest none of these yields \<open>-0\<close> from operands other than \<open>-0\<close>); the quotient
  by zero in \<open>fdiv\<close> takes its sign from the dividend accordingly.

  \<open>ilog2 a\<close> is the binary exponent of a positive rational: \<open>2 powi ilog2 a \<le> a < 2 powi (ilog2 a + 1)\<close>.
  \<open>round64\<close> rounds to a multiple of the spacing of binary64 at that exponent
  (53 significant bits, least exponent \<open>-1022\<close>, hence least spacing \<open>2 powi -1074\<close>) and
  overflows to an infinity when the rounded magnitude reaches \<open>2 powi 1024\<close>.
\<close>

datatype float64 = Finite rat | PosInf | NegInf | NaN

definition roundHalfEven :: "rat \<Rightarrow> int" where
  "roundHalfEven x =
     (let f = \<lfloor>x\<rfloor>; d = x - of_int f
      in if d < 1 / 2 then f else if 1 / 2 < d then f + 1 else if even f then f else f + 1)"

definition ilog2 :: "rat \<Rightarrow> int" where
  "ilog2 a = (let (p, q) = quotient_of a; e = bitlen p - bitlen q
              in if 2 powi e \<le> a then e else e - 1)"

definition round64 :: "rat \<Rightarrow> float64" where
  "round64 x =
     (if x = 0 then Finite 0
      else let a = \<bar>x\<bar>;
               quantum = 2 powi (max (ilog2 a) (- 1022) - 52);
               r = of_int (roundHalfEven (a / quantum)) * quantum
           in if 1024 \<le> ilog2 r then (if 0 < x then PosInf else NegInf)
              else Finite (if 0 < x then r else - r))"

text \<open>The conversion \<open>float64(n)\<close> of an \<open>int\<close>.\<close>

definition float64_of_int :: "int \<Rightarrow> float64" where
  "float64_of_int n = round64 (of_int n)"

fun fneg :: "float64 \<Rightarrow> float64" where
  "fneg (Finite a) = Finite (- a)"
| "fneg PosInf = NegInf"
| "fneg NegInf = PosInf"
| "fneg NaN = NaN"

fun fadd :: "float64 \<Rightarrow> float64 \<Rightarrow> float64" where
  "fadd NaN y = NaN"
| "fadd x NaN = NaN"
| "fadd (Finite a) (Finite b) = round64 (a + b)"
| "fadd PosInf NegInf = NaN"
| "fadd NegInf PosInf = NaN"
| "fadd PosInf y = PosInf"
| "fadd NegInf y = NegInf"
| "fadd (Finite a) y = y"

definition fsub :: "float64 \<Rightarrow> float64 \<Rightarrow> float64" where
  "fsub x y = fadd x (fneg y)"

fun fdiv :: "float64 \<Rightarrow> float64 \<Rightarrow> float64" where
  "fdiv NaN y = NaN"
| "fdiv x NaN = NaN"
| "fdiv (Finite a) (Finite b) =
     (if b = 0 then (if a = 0 then NaN else if 0 < a then PosInf else NegInf)
      else round64 (a / b))"
| "fdiv (Finite a) y = Finite 0"
| "fdiv x (Finite b) = (if (x = PosInf) = (0 \<le> b) then PosInf else NegInf)"
| "fdiv x y = NaN"

text \<open>
  The comparisons \<open><\<close> and \<open>>=\<close> of Go. Every comparison with a NaN is false, so
  \<open>x >= y\<close> is not the negation of \<open>x < y\<close>.
\<close>

fun fless :: "float64 \<Rightarrow> float64 \<Rightarrow> bool" where
  "fless NaN y = False"
| "fless x NaN = False"
| "fless (Finite a) (Finite b) = (a < b)"
| "fless x NegInf = False"
| "fless PosInf y = False"
| "fless x y = True"

definition fgreater_eq :: "float64 \<Rightarrow> float64 \<Rightarrow> bool" where
  "fgreater_eq x y = (x \<noteq> NaN \<and> y \<noteq> NaN \<and> \<not> fless x y)"

section \<open>The verbs of \<open>fmt.Sprintf\<close> that the sources use\<close>

text \<open>
  \<open>%d\<close> prints an integer in decimal. \<open>%.0f\<close> and \<open>%.1f\<close> print a \<open>float64\<close>
  with a fixed number of decimals: \<open>strconv\<close> rounds the exact binary value to that many
  decimals, ties to even, and prints \<open>NaN\<close>, \<open>+Inf\<close> and \<open>-Inf\<close> for the values
  that are not numbers.
\<close>

definition digit :: "nat \<Rightarrow> char" where
  "digit d = ''0123456789'' ! d"

fun digits :: "nat \<Rightarrow> string" where
  "digits n = (if n < 10 then [digit n] else digits (n div 10) @ [digit (n mod 10)])"

declare digits.simps [simp del]

definition sprintf_d :: "int \<Rightarrow> string" where
  "sprintf_d n = (if n < 0 then ''-'' @ digits (nat (- n)) else digits (nat n))"

definition fixed :: "nat \<Rightarrow> rat \<Rightarrow> string" where
  "fixed prec a =
     (let k = nat (roundHalfEven (a * 10 ^ prec))
      in if prec = 0 then digits k
         else digits (k div 10 ^ prec) @ ''.'' @
              drop 1 (digits (10 ^ prec + k mod 10 ^ prec)))"

fun sprintf_f :: "nat \<Rightarrow> float64 \<Rightarrow> string" where
  "sprintf_f prec NaN = ''NaN''"
| "sprintf_f prec PosInf = ''+Inf''"
| "sprintf_f prec NegInf = ''-Inf''"
| "sprintf_f prec (Finite a) = (if a < 0 then ''-'' @ fixed prec (- a) else fixed prec a)"

section \<open>The data model (unnamed/part_001, setup.go)\<close>

text \<open>
  The structs of the sources, field by field. A pointer that may be \<open>nil\<close> is an
  \<open>option\<close>. A \<open>time.Time\<close> is the number of nanoseconds since the Unix epoch. Go
  strings are byte strings; the characters outside ASCII of the sources appear as their
  UTF-8 bytes.
\<close>

type_synonym time = int

record Twitch =
  Channel :: string
  ClientID :: string
  ClientSecret :: string

record Telegram =
  BotToken :: string
  ChatID :: "int option"
  ThreadID :: "int option"

record Config =
  Twitch :: Twitch
  Telegram :: Telegram
  Language :: string
  CheckInterval :: int
  UpdateInterval :: int
  SetupCompleted :: bool

record ClipInfo =
  URL :: string
  Title :: string

record StreamInfo =
  Channel :: string
  URL :: string
  Title :: string
  Game :: string
  Viewers :: int
  Uptime :: string
  Tags :: "string list"

record ViewerDataPoint =
  Timestamp :: time
  Count :: int

record StreamSession =
  MessageID :: int
  StartTime :: time
  Game :: string
  Title :: string
  Tags :: "string list"
  BroadcasterID :: string
  ViewerHistory :: "ViewerDataPoint list"
  UpdateCounter :: int

record Localization =
  StartedStreaming :: string
  IsLive :: string
  StreamEnded :: string
  ButtonText :: string
  Peak :: string
  Viewers :: string
  Avg :: string
  Clips :: string
  Growing :: string
  Steady :: string
  Dropping :: string

definition getLocalization :: "string \<Rightarrow> Localization" where
  "getLocalization lang =
     (if lang = ''en'' then
        \<lparr>StartedStreaming = ''LIVE'',
         IsLive = ''LIVE'',
         StreamEnded = ''OFFLINE'',
         ButtonText = ''Watch'',
         Peak = ''peak'',
         Viewers = ''viewers'',
         Avg = ''avg'',
         Clips = ''clips'',
         Growing = ''growing'',
         Steady = ''steady'',
         Dropping = ''dropping''\<rparr>
      else if lang = ''ru'' then
        \<lparr>StartedStreaming = ''LIVE'',
         IsLive = ''LIVE'',
         StreamEnded = ''OFFLINE'',
         ButtonText = [CHR 0xD0, CHR 0xA1, CHR 0xD0, CHR 0xBC, CHR 0xD0, CHR 0xBE,
                       CHR 0xD1, CHR 0x82, CHR 0xD1, CHR 0x80, CHR 0xD0, CHR 0xB5,
                       CHR 0xD1, CHR 0x82, CHR 0xD1, CHR 0x8C],
         Peak = [CHR 0xD0, CHR 0xBF, CHR 0xD0, CHR 0xB8, CHR 0xD0, CHR 0xBA],
         Viewers = [CHR 0xD0, CHR 0xB7, CHR 0xD1, CHR 0x80, CHR 0xD0, CHR 0xB8,
                    CHR 0xD1, CHR 0x82, CHR 0xD0, CHR 0xB5, CHR 0xD0, CHR 0xBB,
                    CHR 0xD0, CHR 0xB5, CHR 0xD0, CHR 0xB9],
         Avg = [CHR 0xD1, CHR 0x81, CHR 0xD1, CHR 0x80, CHR 0xD0, CHR 0xB5,
                CHR 0xD0, CHR 0xB4, CHR 0xD0, CHR 0xBD, CHR 0xD0, CHR 0xB5,
                CHR 0xD0, CHR 0xB5],
         Clips = [CHR 0xD0, CHR 0xBA, CHR 0xD0, CHR 0xBB, CHR 0xD0, CHR 0xB8,
                  CHR 0xD0, CHR 0xBF, CHR 0xD0, CHR 0xBE, CHR 0xD0, CHR 0xB2],
         Growing = [CHR 0xD1, CHR 0x80, CHR 0xD0, CHR 0xB0, CHR 0xD1, CHR 0x81,
                    CHR 0xD1, CHR 0x82, CHR 0xD1, CHR 0x91, CHR 0xD1, CHR 0x82],
         Steady = [CHR 0xD1, CHR 0x81, CHR 0xD1, CHR 0x82, CHR 0xD0, CHR 0xB0,
                   CHR 0xD0, CHR 0xB1, CHR 0xD0, CHR 0xB8, CHR 0xD0, CHR 0xBB,
                   CHR 0xD1, CHR 0x8C, CHR 0xD0, CHR 0xBD, CHR 0xD0, CHR 0xBE],
         Dropping = [CHR 0xD0, CHR 0xBF, CHR 0xD0, CHR 0xB0, CHR 0xD0, CHR 0xB4,
                     CHR 0xD0, CHR 0xB0, CHR 0xD0, CHR 0xB5, CHR 0xD1, CHR 0x82]\<rparr>
      else
        \<lparr>StartedStreaming = ''LIVE'',
         IsLive = ''LIVE'',
         StreamEnded = ''OFFLINE'',
         ButtonText = ''Watch'',
         Peak = ''peak'',
         Viewers = ''viewers'',
         Avg = ''avg'',
         Clips = ''clips'',
         Growing = ''growing'',
         Steady = ''steady'',
         Dropping = ''dropping''\<rparr>)"

subsection \<open>Viewer metrics\<close>

text \<open>
  \<open>calculateAverage\<close> adds the counts in an \<open>int\<close>, which wraps, and divides by
  the length, truncating towards zero. \<open>getMaxViewers\<close> starts from the first count.
\<close>

definition calculateAverage :: "ViewerDataPoint list \<Rightarrow> int" where
  "calculateAverage history =
     (if length history = 0 then 0
      else foldl (\<lambda>sum p. int64 (sum + Count p)) 0 history sdiv int (length history))"

definition getMaxViewers :: "ViewerDataPoint list \<Rightarrow> int" where
  "getMaxViewers history =
     (if length history = 0 then 0
      else foldl (\<lambda>max p. if max < Count p then Count p else max) (Count (hd history)) history)"

section \<open>Message composition (format.go)\<close>

text \<open>
  \<open>strings.ReplaceAll\<close> is only called with a pattern of one byte, and
  \<open>strings.Join\<close> puts the separator between the elements. The separators of the
  sources are a bullet (U+2022) and a middle dot (U+00B7) between spaces, and two line
  feeds.
\<close>

definition ReplaceAll :: "string \<Rightarrow> char \<Rightarrow> string \<Rightarrow> string" where
  "ReplaceAll text old new = concat (map (\<lambda>c. if c = old then new else [c]) text)"

fun Join :: "string list \<Rightarrow> string \<Rightarrow> string" where
  "Join [] sep = []"
| "Join [x] sep = x"
| "Join (x # y # ys) sep = x @ sep @ Join (y # ys) sep"

definition bullet :: string where
  "bullet = '' '' @ [CHR 0xE2, CHR 0x80, CHR 0xA2] @ '' ''"

definition middot :: string where
  "middot = '' '' @ [CHR 0xC2, CHR 0xB7] @ '' ''"

definition newlines :: string where
  "newlines = [CHR 0x0A, CHR 0x0A]"

definition escapeHTML :: "string \<Rightarrow> string" where
  "escapeHTML text =
     ReplaceAll (ReplaceAll (ReplaceAll text (CHR ''&'') ''&amp;'') (CHR ''<'') ''&lt;'')
       (CHR ''>'') ''&gt;''"

definition formatTags :: "string list \<Rightarrow> string" where
  "formatTags tags = Join (map (\<lambda>tag. ''#'' @ tag) (filter (\<lambda>tag. tag \<noteq> []) tags)) '' ''"

definition formatClips :: "ClipInfo list \<Rightarrow> string" where
  "formatClips clips =
     (if length clips = 0 then []
      else Join (map (\<lambda>c. ''<a href='' @ [CHR 0x22] @ ClipInfo.URL c @ [CHR 0x22] @ ''>'' @
                          escapeHTML (ClipInfo.Title c) @ ''</a>'') clips) middot)"

text \<open>
  \<open>viewerTrend\<close> computes in \<open>float64\<close>: both loops add the converted counts to
  an accumulator that starts at zero, the sums are divided by the converted lengths, and the
  constants \<open>0.07\<close> and \<open>-0.07\<close> are the \<open>float64\<close> values nearest to them.
\<close>

definition viewerTrend :: "ViewerDataPoint list \<Rightarrow> Localization \<Rightarrow> string" where
  "viewerTrend history loc =
     (if length history < 4 then []
      else
        let mid = length history div 2;
            early = foldl (\<lambda>acc p. fadd acc (float64_of_int (Count p))) (Finite 0) (take mid history);
            late = foldl (\<lambda>acc p. fadd acc (float64_of_int (Count p))) (Finite 0) (drop mid history);
            early = fdiv early (float64_of_int (int mid));
            late = fdiv late (float64_of_int (int (length history - mid)));
            diff = fdiv (fsub late early) early
        in if fless (round64 (7 / 100)) diff then Growing loc
           else if fless diff (round64 (- (7 / 100))) then Dropping loc
           else Steady loc)"

definition formatViewers :: "int \<Rightarrow> string" where
  "formatViewers n =
     (if 1000000 \<le> n then
        (let val = fdiv (float64_of_int n) (Finite 1000000)
         in if fgreater_eq val (Finite 10) then sprintf_f 0 val @ ''M''
            else sprintf_f 1 val @ ''M'')
      else if 10000 \<le> n then sprintf_f 0 (fdiv (float64_of_int n) (Finite 1000)) @ ''K''
      else if 1000 \<le> n then sprintf_f 1 (fdiv (float64_of_int n) (Finite 1000)) @ ''K''
      else sprintf_d n)"

definition formatStartMessage :: "StreamInfo \<Rightarrow> Localization \<Rightarrow> string" where
  "formatStartMessage info loc =
     (let line = ''<b>'' @ escapeHTML (StreamInfo.Channel info) @ ''</b>'' @ bullet @
                 StartedStreaming loc;
          line = (if StreamInfo.Game info \<noteq> [] then line @ bullet @ escapeHTML (StreamInfo.Game info)
                  else line);
          b = line @ newlines;
          b = (if StreamInfo.Title info \<noteq> []
               then b @ ''<i>'' @ escapeHTML (StreamInfo.Title info) @ ''</i>'' else b);
          tags = formatTags (StreamInfo.Tags info)
      in if tags \<noteq> [] then b @ newlines @ tags else b)"

definition formatUpdateMessage ::
  "StreamInfo \<Rightarrow> int \<Rightarrow> ViewerDataPoint list \<Rightarrow> Localization \<Rightarrow> string" where
  "formatUpdateMessage info avgViewers history loc =
     (let line = ''<b>'' @ escapeHTML (StreamInfo.Channel info) @ ''</b>'' @ bullet @ IsLive loc;
          line = (if StreamInfo.Game info \<noteq> [] then line @ bullet @ escapeHTML (StreamInfo.Game info)
                  else line);
          b = line @ newlines;
          b = (if StreamInfo.Title info \<noteq> []
               then b @ ''<i>'' @ escapeHTML (StreamInfo.Title info) @ ''</i>'' @ newlines else b);
          stats = (if Uptime info \<noteq> [] then [Uptime info] else []);
          stats =
            (if 0 < StreamInfo.Viewers info then
               let v = formatViewers (StreamInfo.Viewers info) @ '' '' @ Localization.Viewers loc;
                   v = (if 0 < avgViewers \<and> avgViewers \<noteq> StreamInfo.Viewers info
                        then v @ '', '' @ formatViewers avgViewers @ '' '' @ Avg loc else v);
                   trend = viewerTrend history loc;
                   v = (if trend \<noteq> [] then v @ middot @ trend else v)
               in stats @ [v]
             else stats)
      in b @ Join stats middot)"

definition formatUpdateMessageWithClips ::
  "StreamInfo \<Rightarrow> int \<Rightarrow> ViewerDataPoint list \<Rightarrow> ClipInfo list \<Rightarrow> Localization \<Rightarrow> string" where
  "formatUpdateMessageWithClips info avgViewers history clips loc =
     (let msg = formatUpdateMessage info avgViewers history loc;
          c = formatClips clips;
          msg = (if c \<noteq> [] then msg @ newlines @ c else msg);
          tags = formatTags (StreamInfo.Tags info)
      in if tags \<noteq> [] then msg @ newlines @ tags else msg)"

definition formatEndMessage ::
  "string \<Rightarrow> string \<Rightarrow> int \<Rightarrow> int \<Rightarrow> string \<Rightarrow> string \<Rightarrow> string list \<Rightarrow> ClipInfo list \<Rightarrow>
   Localization \<Rightarrow> string" where
  "formatEndMessage channel duration avgViewers maxViewers game title tags clips loc =
     (let line = ''<b>'' @ escapeHTML channel @ ''</b>'' @ bullet @ StreamEnded loc;
          line = (if game \<noteq> [] then line @ bullet @ escapeHTML game else line);
          b = line @ newlines;
          b = (if title \<noteq> [] then b @ ''<i>'' @ escapeHTML title @ ''</i>'' @ newlines else b);
          stats = (if duration \<noteq> [] then [duration] else []);
          stats =
            (if 0 < avgViewers then
               let v = formatViewers avgViewers @ '' '' @ Avg loc;
                   v = (if avgViewers < maxViewers
                        then v @ '', '' @ formatViewers maxViewers @ '' '' @ Peak loc else v)
               in stats @ [v]
             else stats);
          stats = (if 0 < length clips
                   then stats @ [sprintf_d (int (length clips)) @ '' '' @ Clips loc] else stats);
          b = b @ Join stats middot;
          c = formatClips clips;
          b = (if c \<noteq> [] then b @ newlines @ c else b);
          hashtags = formatTags tags
      in if hashtags \<noteq> [] then b @ newlines @ hashtags else b)"

section \<open>The messaging client (unnamed/part_000)\<close>

text \<open>
  The three functions build a request, send it and read the reply. What they return
  depends on what they meet outside, which an \<open>exchange\<close> records: whether
  \<open>downloadImage\<close> fails, whether the HTTP request fails, the status code of the
  response, and what \<open>json.Unmarshal\<close> makes of its body: no JSON, or a
  \<open>TelegramResponse\<close> with its \<open>ok\<close> flag and the \<open>message_id\<close> that the second
  \<open>json.Unmarshal\<close> finds in \<open>result\<close>. That second call can fail or find no such
  field; its error is not looked at, and \<open>msg.MessageID\<close> is then left at zero.
\<close>

datatype telegram_body = NotJSON | Reply bool "int option"

record exchange =
  imageFails :: bool
  requestFails :: bool
  statusCode :: nat
  body :: telegram_body

definition sendPhotoMessage ::
  "string \<Rightarrow> int \<Rightarrow> int option \<Rightarrow> string \<Rightarrow> string \<Rightarrow> string \<Rightarrow> string \<Rightarrow> exchange \<Rightarrow>
   int \<times> error option" where
  "sendPhotoMessage token chatID threadID photoURL caption buttonURL buttonText x =
     (if imageFails x then (0, Some ImageDownloadFailed)
      else if requestFails x then (0, Some RequestFailed)
      else case body x of
             NotJSON \<Rightarrow> (0, Some InvalidJSON)
           | Reply ok result \<Rightarrow>
               if \<not> ok then (0, Some TelegramAPIError)
               else (case result of None \<Rightarrow> 0 | Some messageID \<Rightarrow> messageID, None))"

definition editPhotoMessage ::
  "string \<Rightarrow> int \<Rightarrow> int \<Rightarrow> string \<Rightarrow> string \<Rightarrow> string \<Rightarrow> string \<Rightarrow> exchange \<Rightarrow> error option" where
  "editPhotoMessage token chatID messageID photoURL caption buttonURL buttonText x =
     (if imageFails x then Some ImageDownloadFailed
      else if requestFails x then Some RequestFailed
      else if statusCode x \<noteq> 200 then Some TelegramAPIError
      else None)"

definition editMessageCaption ::
  "string \<Rightarrow> int \<Rightarrow> int \<Rightarrow> string \<Rightarrow> string \<Rightarrow> string \<Rightarrow> exchange \<Rightarrow> error option" where
  "editMessageCaption token chatID messageID caption buttonURL buttonText x =
     (if requestFails x then Some RequestFailed
      else if statusCode x \<noteq> 200 then Some TelegramAPIError
      else None)"

section \<open>The poll loop (\<open>monitorLoop\<close>, monitor.go)\<close>

text \<open>
  One iteration of the loop is \<open>pollCycle\<close>. What the iteration meets outside is a
  \<open>cycle\<close>: whether the context is done at the \<open>select\<close> at the top, whether the file
  \<open>simulate_end\<close> exists, what the three lookups of the streaming platform return, the
  readings of the clock in the order in which the iteration takes them, the string that
  \<open>formatDuration(time.Since(session.StartTime), cfg.Language)\<close> yields (it depends on the
  clock and is taken as given), the replies of the messaging service to the successive
  invocations of the delivery, and whether the context is done before each wait of the
  retry executor elapses.
\<close>

record cycle =
  ctxDoneAtTop :: bool
  sentinel :: bool
  streamInfo :: "error + StreamInfo option"
  broadcaster :: "error + string"
  recentClips :: "error + ClipInfo list"
  clock :: "nat \<Rightarrow> time"
  durationStr :: string
  telegramReplies :: "nat \<Rightarrow> exchange"
  ctxDoneInWait :: "nat \<Rightarrow> bool"

text \<open>
  What an iteration does to the outside is a list of effects, in order. A delivery through
  the retry executor is one effect: the request, how often it was sent, the waits between
  the attempts, and what \<open>retryWithBackoff\<close> returned. Logging is left out.
\<close>

datatype request =
    SendPhoto string int "int option" string string string string
  | EditPhoto string int int string string string string
  | EditCaption string int int string string string

datatype effect =
    RemoveFile string
  | GetStreamInfo string string string string
  | GetBroadcasterID string string string
  | GetRecentClips string string string time
  | Deliver request nat "nat list" "error option"
  | Sleep int

text \<open>
  The variables of \<open>monitorLoop\<close> that live across iterations. An iteration returns from
  the loop (\<open>Return\<close>), panics (\<open>Panic\<close>; in the loop body that is the dereference of a
  \<open>nil\<close> chat id when the closure of a delivery is first invoked), or ends with the new
  variables and its effects (\<open>Next\<close>); \<open>None\<close> is an iteration that never ends, because
  a delivery never returns.
\<close>

record loop =
  session :: "StreamSession option"
  lastWasLive :: bool

datatype step = Return | Panic | Next loop "effect list"

definition getThumbnailURL :: "string \<Rightarrow> time \<Rightarrow> string" where
  "getThumbnailURL channel now =
     ''https://static-cdn.jtvnw.net/previews-ttv/live_user_'' @ channel @
     ''-1920x1080.jpg?t='' @ sprintf_d (now div 1000000000)"

text \<open>
  The three branches of the loop body that act on the session, each with the state \<open>st\<close>
  and the effects \<open>fx\<close> of the iteration so far. \<open>sleep\<close> returns when the interval
  has elapsed or the context is done; either way the iteration ends.

  First branch, \<open>isLive && session == nil\<close>. The closure assigns \<open>messageID\<close>, which
  starts at zero, at every invocation.
\<close>

definition streamStarted ::
  "Config \<Rightarrow> Localization \<Rightarrow> cycle \<Rightarrow> StreamInfo \<Rightarrow> loop \<Rightarrow> effect list \<Rightarrow> step option" where
  "streamStarted cfg loc c info st fx =
     (let lookup = GetBroadcasterID (Twitch.Channel (Twitch cfg)) (ClientID (Twitch cfg))
                     (ClientSecret (Twitch cfg))
      in case broadcaster c of
           Inl err \<Rightarrow> Some (Next st (fx @ [lookup, Sleep (CheckInterval cfg)]))
         | Inr broadcasterID \<Rightarrow>
             let thumbnailURL = getThumbnailURL (Twitch.Channel (Twitch cfg)) (clock c 0);
                 message = formatStartMessage info loc;
                 dataPoint = \<lparr>Timestamp = clock c 1, Count = StreamInfo.Viewers info\<rparr>
             in case ChatID (Telegram cfg) of
                  None \<Rightarrow> Some Panic
                | Some chatID \<Rightarrow>
                    (case retryWithBackoff
                            (attempt (sendPhotoMessage (BotToken (Telegram cfg)) chatID
                               (ThreadID (Telegram cfg)) thumbnailURL message (StreamInfo.URL info)
                               (ButtonText loc)))
                            timeAfter (world0 (telegramReplies c) (ctxDoneInWait c) 0) of
                       None \<Rightarrow> None
                     | Some (r, w) \<Rightarrow>
                         let messageID = captured w;
                             sent = Deliver (SendPhoto (BotToken (Telegram cfg)) chatID
                                      (ThreadID (Telegram cfg)) thumbnailURL message
                                      (StreamInfo.URL info) (ButtonText loc))
                                      (invocations w) (waits w) r;
                             session' =
                               (if messageID \<noteq> 0 then
                                  Some \<lparr>MessageID = messageID,
                                        StartTime = clock c 2,
                                        Game = StreamInfo.Game info,
                                        Title = StreamInfo.Title info,
                                        Tags = StreamInfo.Tags info,
                                        BroadcasterID = broadcasterID,
                                        ViewerHistory = [dataPoint],
                                        UpdateCounter = 0\<rparr>
                                else session st)
                         in Some (Next (st\<lparr>session := session'\<rparr>)
                                    (fx @ [lookup, sent, Sleep (CheckInterval cfg)]))))"

text \<open>
  Second branch, \<open>isLive && session != nil\<close>. \<open>getRecentClips\<close> returns \<open>nil\<close> with
  its error, and the error is dropped.
\<close>

definition streamOnAir ::
  "Config \<Rightarrow> Localization \<Rightarrow> int \<Rightarrow> cycle \<Rightarrow> StreamInfo \<Rightarrow> StreamSession \<Rightarrow> loop \<Rightarrow>
   effect list \<Rightarrow> step option" where
  "streamOnAir cfg loc checksPerUpdate c info s0 st fx =
     (let s = s0\<lparr>ViewerHistory := ViewerHistory s0 @
                     [\<lparr>Timestamp = clock c 0, Count = StreamInfo.Viewers info\<rparr>],
                  UpdateCounter := int64 (UpdateCounter s0 + 1)\<rparr>;
          gameChanged = (StreamInfo.Game info \<noteq> StreamSession.Game s \<and> StreamSession.Game s \<noteq> [])
      in if checksPerUpdate \<le> UpdateCounter s \<or> gameChanged then
           let avgViewers = calculateAverage (ViewerHistory s);
               thumbnailURL = getThumbnailURL (Twitch.Channel (Twitch cfg)) (clock c 1);
               clips = (case recentClips c of Inl err \<Rightarrow> [] | Inr clips \<Rightarrow> clips);
               fetched = GetRecentClips (BroadcasterID s) (ClientID (Twitch cfg))
                           (ClientSecret (Twitch cfg)) (StartTime s);
               message = formatUpdateMessageWithClips info avgViewers (ViewerHistory s) clips loc
           in case ChatID (Telegram cfg) of
                None \<Rightarrow> Some Panic
              | Some chatID \<Rightarrow>
                  (case retryWithBackoff
                          (attempt (\<lambda>x. ((), editPhotoMessage (BotToken (Telegram cfg)) chatID
                             (MessageID s) thumbnailURL message (StreamInfo.URL info)
                             (ButtonText loc) x)))
                          timeAfter (world0 (telegramReplies c) (ctxDoneInWait c) ()) of
                     None \<Rightarrow> None
                   | Some (r, w) \<Rightarrow>
                       let edited = Deliver (EditPhoto (BotToken (Telegram cfg)) chatID
                                      (MessageID s) thumbnailURL message (StreamInfo.URL info)
                                      (ButtonText loc))
                                      (invocations w) (waits w) r;
                           s = s\<lparr>UpdateCounter := 0,
                                  StreamSession.Game := StreamInfo.Game info,
                                  StreamSession.Title := StreamInfo.Title info,
                                  StreamSession.Tags := StreamInfo.Tags info\<rparr>
                       in Some (Next (st\<lparr>session := Some s\<rparr>)
                                  (fx @ [fetched, edited, Sleep (CheckInterval cfg)])))
         else Some (Next (st\<lparr>session := Some s\<rparr>) (fx @ [Sleep (CheckInterval cfg)])))"

text \<open>Third branch, \<open>!isLive && session != nil\<close>.\<close>

definition streamEnded ::
  "Config \<Rightarrow> Localization \<Rightarrow> cycle \<Rightarrow> StreamSession \<Rightarrow> loop \<Rightarrow> effect list \<Rightarrow> step option" where
  "streamEnded cfg loc c s st fx =
     (let avgViewers = calculateAverage (ViewerHistory s);
          maxViewers = getMaxViewers (ViewerHistory s);
          clips = (case recentClips c of Inl err \<Rightarrow> [] | Inr clips \<Rightarrow> clips);
          fetched = GetRecentClips (BroadcasterID s) (ClientID (Twitch cfg))
                      (ClientSecret (Twitch cfg)) (StartTime s);
          message = formatEndMessage (Twitch.Channel (Twitch cfg)) (durationStr c) avgViewers
                      maxViewers (StreamSession.Game s) (StreamSession.Title s)
                      (StreamSession.Tags s) clips loc;
          streamURL = ''https://twitch.tv/'' @ Twitch.Channel (Twitch cfg)
      in case ChatID (Telegram cfg) of
           None \<Rightarrow> Some Panic
         | Some chatID \<Rightarrow>
             (case retryWithBackoff
                     (attempt (\<lambda>x. ((), editMessageCaption (BotToken (Telegram cfg)) chatID
                        (MessageID s) message streamURL (ButtonText loc) x)))
                     timeAfter (world0 (telegramReplies c) (ctxDoneInWait c) ()) of
                None \<Rightarrow> None
              | Some (r, w) \<Rightarrow>
                  let edited = Deliver (EditCaption (BotToken (Telegram cfg)) chatID
                                 (MessageID s) message streamURL (ButtonText loc))
                                 (invocations w) (waits w) r
                  in Some (Next (st\<lparr>session := None\<rparr>)
                             (fx @ [fetched, edited, Sleep (CheckInterval cfg)]))))"

text \<open>
  The loop body. When the file \<open>simulate_end\<close> exists it is removed and the platform is
  not asked; \<open>info\<close> and \<open>err\<close> keep their zero values unless a session exists, in
  which case \<open>err\<close> is set. An error ends the iteration after the sleep.
\<close>

definition pollCycle :: "Config \<Rightarrow> Localization \<Rightarrow> int \<Rightarrow> cycle \<Rightarrow> loop \<Rightarrow> step option" where
  "pollCycle cfg loc checksPerUpdate c st =
     (if ctxDoneAtTop c then Some Return
      else
        let (result, fx) =
              (if sentinel c then
                 (if session st \<noteq> None then Inl SimulatedEnd else Inr None,
                  [RemoveFile ''simulate_end''])
               else
                 (streamInfo c,
                  [GetStreamInfo (Twitch.Channel (Twitch cfg)) (ClientID (Twitch cfg))
                     (ClientSecret (Twitch cfg)) (Language cfg)]))
        in case result of
             Inl err \<Rightarrow> Some (Next st (fx @ [Sleep (CheckInterval cfg)]))
           | Inr info \<Rightarrow>
               let isLive = (info \<noteq> None);
                   st = (if isLive \<noteq> lastWasLive st then st\<lparr>lastWasLive := isLive\<rparr> else st)
               in case (info, session st) of
                    (Some i, None) \<Rightarrow> streamStarted cfg loc c i st fx
                  | (Some i, Some s) \<Rightarrow> streamOnAir cfg loc checksPerUpdate c i s st fx
                  | (None, Some s) \<Rightarrow> streamEnded cfg loc c s st fx
                  | (None, None) \<Rightarrow> Some (Next st (fx @ [Sleep (CheckInterval cfg)])))"

text \<open>
  \<open>monitorLoop\<close> computes the refresh threshold once; the division panics when the check
  interval is zero. The loop then iterates from the state without a session.
  \<open>monitorLoop cfg cs\<close> runs the iterations that meet the cycles \<open>cs\<close>, in order, and
  yields the state that the loop is in after them, with all effects.
\<close>

definition checksPerUpdate :: "Config \<Rightarrow> int" where
  "checksPerUpdate cfg = int64 (int64 (UpdateInterval cfg * 60) sdiv CheckInterval cfg)"

fun iterate :: "Config \<Rightarrow> Localization \<Rightarrow> int \<Rightarrow> loop \<Rightarrow> effect list \<Rightarrow> cycle list \<Rightarrow> step option" where
  "iterate cfg loc n st fx [] = Some (Next st fx)"
| "iterate cfg loc n st fx (c # cs) =
     (case pollCycle cfg loc n c st of
        None \<Rightarrow> None
      | Some Return \<Rightarrow> Some Return
      | Some Panic \<Rightarrow> Some Panic
      | Some (Next st' fx') \<Rightarrow> iterate cfg loc n st' (fx @ fx') cs)"

definition monitorLoop :: "Config \<Rightarrow> cycle list \<Rightarrow> step option" where
  "monitorLoop cfg cs =
     (if CheckInterval cfg = 0 then Some Panic
      else iterate cfg (getLocalization (Language cfg)) (checksPerUpdate cfg)
             \<lparr>session = None, lastWasLive = False\<rparr> [] cs)"

section \<open>The specification's reading of the trend and of the update message\<close>

text \<open>
  These definitions follow the words of the specification and are compared with the
  functions above. The early half of a history is its first \<open>\<lfloor>n / 2\<rfloor>\<close> counts and the
  late half the rest. The arithmetic mean of a sequence of counts is the exact quotient of
  their sum by their number, a rational number, and the relative change between the halves
  is the exact quotient \<open>(lateMean - earlyMean) / earlyMean\<close>; no rounding takes place.
  \<open>spec_trend\<close> classifies that number with the thresholds \<open>0.07\<close> and \<open>-0.07\<close>
  themselves and reports no trend, the empty string, below four points. The specification
  leaves the relative change undefined when the early mean is zero (a quotient by zero is
  \<open>0\<close> in HOL); the comparison below is made on histories whose early mean is not zero.
\<close>

definition spec_early :: "ViewerDataPoint list \<Rightarrow> int list" where
  "spec_early history = map Count (take (length history div 2) history)"

definition spec_late :: "ViewerDataPoint list \<Rightarrow> int list" where
  "spec_late history = map Count (drop (length history div 2) history)"

definition spec_mean :: "int list \<Rightarrow> rat" where
  "spec_mean counts = of_int (sum_list counts) / of_nat (length counts)"

definition spec_relative_change :: "ViewerDataPoint list \<Rightarrow> rat" where
  "spec_relative_change history =
     (let earlyMean = spec_mean (spec_early history);
          lateMean = spec_mean (spec_late history)
      in (lateMean - earlyMean) / earlyMean)"

definition spec_trend :: "ViewerDataPoint list \<Rightarrow> Localization \<Rightarrow> string" where
  "spec_trend history loc =
     (if length history < 4 then []
      else let r = spec_relative_change history
           in if 7 / 100 < r then Growing loc
              else if r < - (7 / 100) then Dropping loc
              else Steady loc)"

text \<open>
  The update message without its stats line: the header with the optional game, and the
  optional title. The viewer fragment of the stats line: the current count, the average
  when it is given, the trend tag when there is one.
\<close>

definition spec_update_lead :: "StreamInfo \<Rightarrow> Localization \<Rightarrow> string" where
  "spec_update_lead info loc =
     ''<b>'' @ escapeHTML (StreamInfo.Channel info) @ ''</b>'' @ bullet @ IsLive loc @
     (if StreamInfo.Game info = [] then [] else bullet @ escapeHTML (StreamInfo.Game info)) @
     newlines @
     (if StreamInfo.Title info = [] then []
      else ''<i>'' @ escapeHTML (StreamInfo.Title info) @ ''</i>'' @ newlines)"

definition spec_viewer_fragment :: "int \<Rightarrow> int option \<Rightarrow> string \<Rightarrow> Localization \<Rightarrow> string" where
  "spec_viewer_fragment current average trend loc =
     formatViewers current @ '' '' @ Localization.Viewers loc @
     (case average of None \<Rightarrow> []
      | Some avg \<Rightarrow> '', '' @ formatViewers avg @ '' '' @ Avg loc) @
     (if trend = [] then [] else middot @ trend)"

section \<open>Sample inputs\<close>

text \<open>Concrete histories and snapshots on which the theorems below are instantiated.\<close>

definition samples :: "int list \<Rightarrow> ViewerDataPoint list" where
  "samples counts = map (\<lambda>c. \<lparr>Timestamp = 0, Count = c\<rparr>) counts"

definition snapshot :: "int \<Rightarrow> StreamInfo" where
  "snapshot viewers =
     \<lparr>StreamInfo.Channel = ''chan'', StreamInfo.URL = ''https://twitch.tv/chan'',
      StreamInfo.Title = ''Speedrun'', StreamInfo.Game = ''Chess'', StreamInfo.Viewers = viewers,
      Uptime = ''1 h 2 m'', StreamInfo.Tags = [''en'']\<rparr>"

text \<open>
  A configuration with a chat id, a session, an exchange in which the messaging service
  accepts the request, and a cycle that meets an offline channel, no sentinel file and a
  service that accepts every request with message id 7.
\<close>

definition config0 :: Config where
  "config0 =
     \<lparr>Twitch = \<lparr>Twitch.Channel = ''chan'', ClientID = ''id'', ClientSecret = ''secret''\<rparr>,
      Telegram = \<lparr>BotToken = ''token'', ChatID = Some 42, ThreadID = None\<rparr>,
      Language = ''en'', CheckInterval = 60, UpdateInterval = 5, SetupCompleted = True\<rparr>"

definition session0 :: StreamSession where
  "session0 =
     \<lparr>MessageID = 7, StartTime = 0, Game = ''Chess'', Title = ''Speedrun'', Tags = [''en''],
      BroadcasterID = ''123'', ViewerHistory = samples [50], UpdateCounter = 0\<rparr>"

definition accepted :: "int option \<Rightarrow> exchange" where
  "accepted result =
     \<lparr>imageFails = False, requestFails = False, statusCode = 200, body = Reply True result\<rparr>"

definition refused :: exchange where
  "refused = \<lparr>imageFails = False, requestFails = True, statusCode = 0, body = NotJSON\<rparr>"

definition cycle0 :: cycle where
  "cycle0 =
     \<lparr>ctxDoneAtTop = False, sentinel = False, streamInfo = Inr None, broadcaster = Inr ''123'',
      recentClips = Inr [], clock = (\<lambda>k. 0), durationStr = ''1 h 2 m'',
      telegramReplies = (\<lambda>k. accepted (Some 7)), ctxDoneInWait = (\<lambda>k. False)\<rparr>"

text \<open>
  Variations: a configuration whose update interval is shorter than its check interval and
  one in which the two are equal; a cycle that meets the channel on air; one in which the
  service accepts the photo with a reply that names no message id; one in which the
  service is unreachable and the context is done during the first wait.
\<close>

definition config1 :: Config where
  "config1 = config0\<lparr>CheckInterval := 61, UpdateInterval := 1\<rparr>"

definition config2 :: Config where
  "config2 = config0\<lparr>UpdateInterval := 1\<rparr>"

definition onAir :: cycle where
  "onAir = cycle0\<lparr>streamInfo := Inr (Some (snapshot 50))\<rparr>"

definition onAirNoId :: cycle where
  "onAirNoId = onAir\<lparr>telegramReplies := (\<lambda>k. accepted None)\<rparr>"

definition offlineCancelled :: cycle where
  "offlineCancelled = cycle0\<lparr>telegramReplies := (\<lambda>k. refused), ctxDoneInWait := (\<lambda>k. True)\<rparr>"

definition idle :: loop where
  "idle = \<lparr>session = None, lastWasLive = False\<rparr>"

definition live :: loop where
  "live = \<lparr>session = Some session0, lastWasLive = True\<rparr>"

text \<open>
  Projections of the result of an iteration: the session, its update counter and the
  deliveries made.
\<close>

definition sessionOf :: "step option \<Rightarrow> StreamSession option" where
  "sessionOf r = (case r of Some (Next st fx) \<Rightarrow> session st | _ \<Rightarrow> None)"

fun deliveries :: "effect list \<Rightarrow> (nat \<times> error option) list" where
  "deliveries [] = []"
| "deliveries (Deliver req k ws r # fx) = (k, r) # deliveries fx"
| "deliveries (e # fx) = deliveries fx"

definition deliveriesOf :: "step option \<Rightarrow> (nat \<times> error option) list" where
  "deliveriesOf r = (case r of Some (Next st fx) \<Rightarrow> deliveries fx | _ \<Rightarrow> [])"

definition counterOf :: "step option \<Rightarrow> int option" where
  "counterOf r = map_option UpdateCounter (sessionOf r)"

section \<open>Auxiliary notions for the proofs about the executor\<close>

text \<open>
  Seen from a world \<open>w\<close>: whether the \<open>k\<close>-th invocation from now fails, whether the
  \<open>k\<close>-th wait from now elapses, and the world after rounds of a failed invocation and an
  elapsed wait with the delays \<open>ds\<close>.
\<close>

definition fails :: "('r \<Rightarrow> 'v \<times> error option) \<Rightarrow> ('r, 'v) world \<Rightarrow> nat \<Rightarrow> bool" where
  "fails f w k = (snd (f (replies w (invocations w + k))) \<noteq> None)"

definition elapses :: "('r, 'v) world \<Rightarrow> nat \<Rightarrow> bool" where
  "elapses w k = (\<not> ctxDone w (length (waits w) + k))"

definition after_rounds ::
  "('r \<Rightarrow> 'v \<times> error option) \<Rightarrow> nat list \<Rightarrow> ('r, 'v) world \<Rightarrow> ('r, 'v) world" where
  "after_rounds f ds w =
     w\<lparr>invocations := invocations w + length ds, waits := waits w @ ds,
       captured := (if ds = [] then captured w
                    else fst (f (replies w (invocations w + length ds - 1))))\<rparr>"


section \<open>Properties of the retry executor\<close>

lemma take_schedule:
  "m \<le> k \<Longrightarrow> take m (ds @ replicate k x) = take m (ds @ replicate m (x::nat))"
  by simp

lemma min_plus_diff [simp]: "min a n + (n - a) = (n::nat)"
  by arith

lemma schedule_snoc:
  "take n (ds @ replicate n x) @ [hd (drop n ds @ [x])] =
   take (Suc n) (ds @ replicate (Suc n) (x::nat))"
proof (induction ds arbitrary: n)
  case Nil
  show ?case by (simp add: replicate_append_same)
next
  case (Cons d ds)
  show ?case
  proof (cases n)
    case 0
    then show ?thesis by simp
  next
    case (Suc m)
    have a: "take m (ds @ replicate (Suc m) x) = take m (ds @ replicate m x)"
      by (rule take_schedule) simp
    have b: "take (Suc m) (ds @ replicate (Suc (Suc m)) x) = take (Suc m) (ds @ replicate (Suc m) x)"
      by (rule take_schedule) simp
    show ?thesis using Cons.IH [of m] Suc a b by simp
  qed
qed

lemma attempt_eq:
  "attempt f w =
     (snd (f (replies w (invocations w))),
      w\<lparr>invocations := Suc (invocations w), captured := fst (f (replies w (invocations w)))\<rparr>)"
  by (simp add: attempt_def split_beta)

lemma timeAfter_attempt:
  "timeAfter d (snd (attempt f w)) = (ctxDone w (length (waits w)), after_rounds f [d] w)"
  by (cases w) (simp add: attempt_eq timeAfter_def after_rounds_def)

lemma round_fails:
  assumes "fails f w 0" and "elapses w 0"
  shows "(case attempt f w of
            (None, w1) \<Rightarrow> A w1
          | (Some err, w1) \<Rightarrow>
              (case timeAfter d w1 of (done, w2) \<Rightarrow> if done then B w2 else C w2)) =
         C (after_rounds f [d] w)"
proof -
  define w1 where "w1 = snd (attempt f w)"
  obtain e where "snd (f (replies w (invocations w))) = Some e"
    using assms(1) by (auto simp: fails_def)
  then have att: "attempt f w = (Some e, w1)" by (simp add: attempt_eq w1_def)
  have tm: "timeAfter d w1 = (False, after_rounds f [d] w)"
    using assms(2) by (simp add: timeAfter_attempt elapses_def w1_def)
  show ?thesis by (simp add: att tm)
qed

lemma round_cancelled:
  assumes "fails f w 0" and "\<not> elapses w 0"
  shows "(case attempt f w of
            (None, w1) \<Rightarrow> A w1
          | (Some err, w1) \<Rightarrow>
              (case timeAfter d w1 of (done, w2) \<Rightarrow> if done then B w2 else C w2)) =
         B (after_rounds f [d] w)"
proof -
  define w1 where "w1 = snd (attempt f w)"
  obtain e where "snd (f (replies w (invocations w))) = Some e"
    using assms(1) by (auto simp: fails_def)
  then have att: "attempt f w = (Some e, w1)" by (simp add: attempt_eq w1_def)
  have tm: "timeAfter d w1 = (True, after_rounds f [d] w)"
    using assms(2) by (simp add: timeAfter_attempt elapses_def w1_def)
  show ?thesis by (simp add: att tm)
qed

lemma round_succeeds:
  assumes "\<not> fails f w 0"
  shows "(case attempt f w of
            (None, w1) \<Rightarrow> A w1
          | (Some err, w1) \<Rightarrow> D err w1) =
         A (w\<lparr>invocations := Suc (invocations w),
               captured := fst (f (replies w (invocations w)))\<rparr>)"
  using assms by (simp add: attempt_eq fails_def)

lemma forever_round:
  assumes "fails f w 0" and "elapses w 0"
  shows "retryForever (attempt f) timeAfter w =
         retryForever (attempt f) timeAfter (after_rounds f [60] w)"
  by (subst retryForever.simps) (simp only: round_fails [OF assms])

lemma fails_after: "fails f (after_rounds f ds w) k = fails f w (length ds + k)"
  by (simp add: fails_def after_rounds_def add.assoc)

lemma elapses_after: "elapses (after_rounds f ds w) k = elapses w (length ds + k)"
  by (simp add: elapses_def after_rounds_def add.assoc)

lemma after_rounds_append:
  "after_rounds f es (after_rounds f ds w) = after_rounds f (ds @ es) w"
  by (cases w) (simp add: after_rounds_def add.assoc)

lemma after_rounds_Nil [simp]: "after_rounds f [] w = w"
  by (simp add: after_rounds_def)

lemma forever_rounds:
  "(\<forall>k<n. fails f w k \<and> elapses w k) \<Longrightarrow>
   retryForever (attempt f) timeAfter w =
   retryForever (attempt f) timeAfter (after_rounds f (replicate n 60) w)"
proof (induction n arbitrary: w)
  case 0
  show ?case by simp
next
  case (Suc n)
  have first: "fails f w 0" "elapses w 0" using Suc.prems by auto
  have rest: "\<forall>k<n. fails f (after_rounds f [60] w) k \<and> elapses (after_rounds f [60] w) k"
    using Suc.prems by (auto simp: fails_after elapses_after)
  show ?case
    using forever_round [OF first] Suc.IH [OF rest]
    by (simp add: after_rounds_append)
qed

lemma schedule_rounds:
  "(\<forall>k<n. fails f w k \<and> elapses w k) \<Longrightarrow>
   retrySchedule (attempt f) timeAfter ds w =
   retrySchedule (attempt f) timeAfter (drop n ds)
     (after_rounds f (take n (ds @ replicate n 60)) w)"
proof (induction ds arbitrary: w n)
  case Nil
  then show ?case using forever_rounds [of n f w] by simp
next
  case (Cons d ds)
  show ?case
  proof (cases n)
    case 0
    then show ?thesis by simp
  next
    case (Suc m)
    have first: "fails f w 0" "elapses w 0" using Cons.prems Suc by auto
    have rest: "\<forall>k<m. fails f (after_rounds f [d] w) k \<and> elapses (after_rounds f [d] w) k"
      using Cons.prems Suc by (auto simp: fails_after elapses_after)
    have step: "retrySchedule (attempt f) timeAfter (d # ds) w =
                retrySchedule (attempt f) timeAfter ds (after_rounds f [d] w)"
      by (simp only: retrySchedule.simps round_fails [OF first])
    have "take m (ds @ replicate (Suc m) 60) = take m (ds @ replicate m (60::nat))"
      by (rule take_schedule) simp
    then show ?thesis
      using step Cons.IH [OF rest] Suc by (simp add: after_rounds_append)
  qed
qed

lemma schedule_now_succeeds:
  assumes "\<not> fails f w 0"
  shows "retrySchedule (attempt f) timeAfter ds w =
         Some (None, w\<lparr>invocations := Suc (invocations w),
                        captured := fst (f (replies w (invocations w)))\<rparr>)"
proof (cases ds)
  case Nil
  have "retryForever (attempt f) timeAfter w =
        Some (None, w\<lparr>invocations := Suc (invocations w),
                       captured := fst (f (replies w (invocations w)))\<rparr>)"
    by (subst retryForever.simps) (simp only: round_succeeds [OF assms])
  then show ?thesis using Nil by simp
next
  case (Cons d rest)
  then show ?thesis by (simp only: retrySchedule.simps round_succeeds [OF assms])
qed

lemma schedule_now_cancelled:
  assumes "fails f w 0" and "\<not> elapses w 0"
  shows "retrySchedule (attempt f) timeAfter ds w =
         Some (Some ContextCanceled, after_rounds f [hd (ds @ [60])] w)"
proof (cases ds)
  case Nil
  have "retryForever (attempt f) timeAfter w = Some (Some ContextCanceled, after_rounds f [60] w)"
    by (subst retryForever.simps) (simp only: round_cancelled [OF assms])
  then show ?thesis using Nil by simp
next
  case (Cons d rest)
  then show ?thesis by (simp add: round_cancelled [OF assms])
qed

lemma forever_diverges_aux:
  assumes "retryForever operation after w = Some y"
  shows "operation = attempt f \<Longrightarrow> after = timeAfter \<Longrightarrow>
         (\<forall>k. fails f w k \<and> elapses w k) \<Longrightarrow> False"
  using assms
proof (induction arbitrary: f rule: retryForever.raw_induct [rotated 1, consumes 1])
  case (1 retryForever operation after w y)
  have first: "fails f w 0" "elapses w 0" using "1.prems" by auto
  have rest: "\<forall>k. fails f (after_rounds f [60] w) k \<and> elapses (after_rounds f [60] w) k"
    using "1.prems" by (auto simp: fails_after elapses_after)
  have "retryForever operation after (after_rounds f [60] w) = Some y"
    using "1.hyps" unfolding "1.prems"(1,2) by (simp only: round_fails [OF first])
  then show ?case using "1.IH" "1.prems"(1,2) rest by blast
qed

lemma forever_diverges:
  "(\<forall>k. fails f w k \<and> elapses w k) \<Longrightarrow> retryForever (attempt f) timeAfter w = None"
  using forever_diverges_aux [of "attempt f" timeAfter w _ f]
  by (cases "retryForever (attempt f) timeAfter w") auto

lemma schedule_diverges:
  assumes "\<forall>k. fails f w k \<and> elapses w k"
  shows "retrySchedule (attempt f) timeAfter ds w = None"
proof -
  let ?w = "after_rounds f (take (length ds) (ds @ replicate (length ds) 60)) w"
  have "retrySchedule (attempt f) timeAfter ds w = retryForever (attempt f) timeAfter ?w"
    using schedule_rounds [of "length ds" f w ds] assms by simp
  moreover have "\<forall>k. fails f ?w k \<and> elapses ?w k"
    using assms by (simp add: fails_after elapses_after)
  ultimately show ?thesis by (simp add: forever_diverges)
qed

lemma retry_succeeds:
  assumes "\<forall>k<n. fails f w k \<and> elapses w k" and "\<not> fails f w n"
  shows "retryWithBackoff (attempt f) timeAfter w =
         Some (None, w\<lparr>invocations := invocations w + n + 1,
                        waits := waits w @ take n (delays @ replicate n 60),
                        captured := fst (f (replies w (invocations w + n)))\<rparr>)"
proof -
  let ?w = "after_rounds f (take n (delays @ replicate n 60)) w"
  have "\<not> fails f ?w 0" using assms(2) by (simp add: fails_after)
  then have "retrySchedule (attempt f) timeAfter (drop n delays) ?w =
             Some (None, ?w\<lparr>invocations := Suc (invocations ?w),
                             captured := fst (f (replies ?w (invocations ?w)))\<rparr>)"
    by (rule schedule_now_succeeds)
  moreover have "?w\<lparr>invocations := Suc (invocations ?w),
                    captured := fst (f (replies ?w (invocations ?w)))\<rparr> =
                 w\<lparr>invocations := invocations w + n + 1,
                   waits := waits w @ take n (delays @ replicate n 60),
                   captured := fst (f (replies w (invocations w + n)))\<rparr>"
    by (cases w) (simp add: after_rounds_def)
  ultimately show ?thesis
    using schedule_rounds [OF assms(1), of delays]
    by (simp add: retryWithBackoff_def)
qed

lemma retry_cancelled:
  assumes "\<forall>k<n. fails f w k \<and> elapses w k" and "fails f w n" and "\<not> elapses w n"
  shows "retryWithBackoff (attempt f) timeAfter w =
         Some (Some ContextCanceled,
               w\<lparr>invocations := invocations w + n + 1,
                  waits := waits w @ take (Suc n) (delays @ replicate (Suc n) 60),
                  captured := fst (f (replies w (invocations w + n)))\<rparr>)"
proof -
  let ?w = "after_rounds f (take n (delays @ replicate n 60)) w"
  have "fails f ?w 0" "\<not> elapses ?w 0"
    using assms(2,3) by (simp_all add: fails_after elapses_after)
  then have "retrySchedule (attempt f) timeAfter (drop n delays) ?w =
             Some (Some ContextCanceled, after_rounds f [hd (drop n delays @ [60])] ?w)"
    by (rule schedule_now_cancelled)
  moreover have "take n (delays @ replicate n 60) @ [hd (drop n delays @ [60])] =
                 take (Suc n) (delays @ replicate (Suc n) 60)"
    by (rule schedule_snoc)
  moreover have "after_rounds f (take (Suc n) (delays @ replicate (Suc n) 60)) w =
                 w\<lparr>invocations := invocations w + n + 1,
                   waits := waits w @ take (Suc n) (delays @ replicate (Suc n) 60),
                   captured := fst (f (replies w (invocations w + n)))\<rparr>"
    by (cases w) (simp add: after_rounds_def delays_def)
  ultimately show ?thesis
    using schedule_rounds [OF assms(1), of delays]
    by (simp add: retryWithBackoff_def after_rounds_append)
qed

lemma retry_diverges:
  "\<forall>k. fails f w k \<and> elapses w k \<Longrightarrow> retryWithBackoff (attempt f) timeAfter w = None"
  by (simp add: retryWithBackoff_def schedule_diverges)

lemma first_event:
  assumes "\<exists>k. \<not> fails f w k \<or> \<not> elapses w k"
  obtains n where "\<forall>k<n. fails f w k \<and> elapses w k" and "\<not> fails f w n \<or> \<not> elapses w n"
proof -
  define n where "n = (LEAST k. \<not> fails f w k \<or> \<not> elapses w k)"
  have "\<not> fails f w n \<or> \<not> elapses w n"
    unfolding n_def using assms by (rule LeastI_ex)
  moreover have "\<forall>k<n. fails f w k \<and> elapses w k"
    unfolding n_def using not_less_Least by blast
  ultimately show thesis using that by blast
qed

text \<open>
  C2: the retry executor returns exactly when some invocation of the operation
  succeeds or the context is cancelled during some wait, and then its result is one of two:
  \<open>nil\<close> after the first successful invocation, or the context's error after the first
  cancelled wait. The operation's own error is never the result. When wait number \<open>n\<close> is
  cancelled, the operation has been invoked \<open>n + 1\<close> times, once before each wait, and never
  after the cancelled one.
\<close>

theorem retry_returns_success_or_cancellation:
  fixes w :: "('r, 'v) world"
  shows
  "((\<exists>y. retryWithBackoff (attempt f) timeAfter w = Some y) \<longleftrightarrow>
      (\<exists>k. snd (f (replies w (invocations w + k))) = None \<or> ctxDone w (length (waits w) + k)))
   \<and> (\<forall>r w'. retryWithBackoff (attempt f) timeAfter w = Some (r, w') \<longrightarrow>
        (\<exists>n. (\<forall>k<n. snd (f (replies w (invocations w + k))) \<noteq> None
                     \<and> \<not> ctxDone w (length (waits w) + k))
           \<and> invocations w' = invocations w + n + 1
           \<and> (r = None \<and> snd (f (replies w (invocations w + n))) = None
                 \<and> length (waits w') = length (waits w) + n
              \<or> r = Some ContextCanceled \<and> snd (f (replies w (invocations w + n))) \<noteq> None
                 \<and> ctxDone w (length (waits w) + n)
                 \<and> length (waits w') = length (waits w) + n + 1)))"
proof (cases "\<exists>k. \<not> fails f w k \<or> \<not> elapses w k")
  case True
  then obtain n where before: "\<forall>k<n. fails f w k \<and> elapses w k"
    and at: "\<not> fails f w n \<or> \<not> elapses w n"
    by (rule first_event)
  have ex: "\<exists>k. snd (f (replies w (invocations w + k))) = None \<or> ctxDone w (length (waits w) + k)"
    using True by (simp add: fails_def elapses_def)
  have before': "\<forall>k<n. snd (f (replies w (invocations w + k))) \<noteq> None
                     \<and> \<not> ctxDone w (length (waits w) + k)"
    using before by (simp add: fails_def elapses_def)
  show ?thesis
  proof (cases "fails f w n")
    case False
    have "retryWithBackoff (attempt f) timeAfter w =
          Some (None, w\<lparr>invocations := invocations w + n + 1,
                         waits := waits w @ take n (delays @ replicate n 60),
                         captured := fst (f (replies w (invocations w + n)))\<rparr>)"
      using before False by (rule retry_succeeds)
    moreover have "snd (f (replies w (invocations w + n))) = None"
      using False by (simp add: fails_def)
    ultimately show ?thesis using ex before' by auto
  next
    case fl: True
    then have nd: "\<not> elapses w n" using at by simp
    have "retryWithBackoff (attempt f) timeAfter w =
          Some (Some ContextCanceled,
                w\<lparr>invocations := invocations w + n + 1,
                   waits := waits w @ take (Suc n) (delays @ replicate (Suc n) 60),
                   captured := fst (f (replies w (invocations w + n)))\<rparr>)"
      using before fl nd by (rule retry_cancelled)
    moreover have "snd (f (replies w (invocations w + n))) \<noteq> None"
      "ctxDone w (length (waits w) + n)"
      using fl nd by (simp_all add: fails_def elapses_def)
    ultimately show ?thesis using ex before' by auto
  qed
next
  case False
  then have "\<forall>k. fails f w k \<and> elapses w k" by simp
  then have "retryWithBackoff (attempt f) timeAfter w = None" by (rule retry_diverges)
  moreover have "\<not> (\<exists>k. snd (f (replies w (invocations w + k))) = None
                       \<or> ctxDone w (length (waits w) + k))"
    using False by (simp add: fails_def elapses_def)
  ultimately show ?thesis by simp
qed

theorem retry_returns_success_or_cancellation_witness:
  "retryWithBackoff (attempt (\<lambda>r. ((), r))) timeAfter
     (world0 (\<lambda>k. Some RequestFailed) (\<lambda>k. k = 2) ()) \<noteq> None
   \<and> (\<exists>w'. retryWithBackoff (attempt (\<lambda>r. ((), r))) timeAfter
          (world0 (\<lambda>k. Some RequestFailed) (\<lambda>k. k = 2) ()) = Some (Some ContextCanceled, w')
        \<and> invocations w' = 3 \<and> length (waits w') = 3)"
proof -
  let ?f = "\<lambda>r::error option. ((), r)"
  let ?w = "world0 (\<lambda>k. Some RequestFailed) (\<lambda>k. k = 2) ()"
  have "\<exists>k. snd (?f (replies ?w (invocations ?w + k))) = None \<or> ctxDone ?w (length (waits ?w) + k)"
    by (rule exI [of _ 2]) (simp add: world0_def)
  then obtain r w' where ret: "retryWithBackoff (attempt ?f) timeAfter ?w = Some (r, w')"
    using retry_returns_success_or_cancellation [of ?f ?w] by auto
  then obtain n where n: "\<forall>k<n. \<not> ctxDone ?w (length (waits ?w) + k)"
      "invocations w' = invocations ?w + n + 1"
      "r = None \<and> snd (?f (replies ?w (invocations ?w + n))) = None
         \<and> length (waits w') = length (waits ?w) + n
       \<or> r = Some ContextCanceled \<and> ctxDone ?w (length (waits ?w) + n)
         \<and> length (waits w') = length (waits ?w) + n + 1"
    using retry_returns_success_or_cancellation [of ?f ?w] by blast
  from n(3) have "n = 2" by (simp add: world0_def)
  with n ret show ?thesis by (auto simp: world0_def)
qed

text \<open>
  C3: the operation is invoked at once; after the \<open>k\<close>-th failure the executor waits the
  \<open>k\<close>-th delay of 1, 3, 5, 10, 15, 30, 45, 60 seconds and 60 seconds from then on, for as
  long as the operation fails and the context is not cancelled, without ever giving up. An
  operation that fails three times and then succeeds is invoked exactly 4 times, after waits
  of 1, 3 and 5 seconds, 9 seconds in all.
\<close>

theorem retry_follows_schedule:
  fixes w :: "('r, 'v) world"
  shows
  "((\<forall>k<n. snd (f (replies w (invocations w + k))) \<noteq> None \<and> \<not> ctxDone w (length (waits w) + k))
      \<and> snd (f (replies w (invocations w + n))) = None \<longrightarrow>
      retryWithBackoff (attempt f) timeAfter w =
        Some (None, w\<lparr>invocations := invocations w + n + 1,
                       waits := waits w @ take n ([1, 3, 5, 10, 15, 30, 45, 60] @ replicate n 60),
                       captured := fst (f (replies w (invocations w + n)))\<rparr>))
   \<and> ((\<forall>k. snd (f (replies w (invocations w + k))) \<noteq> None \<and> \<not> ctxDone w (length (waits w) + k)) \<longrightarrow>
      retryWithBackoff (attempt f) timeAfter w = None)
   \<and> ((\<forall>k<3. snd (f (replies w (invocations w + k))) \<noteq> None \<and> \<not> ctxDone w (length (waits w) + k))
      \<and> snd (f (replies w (invocations w + 3))) = None \<longrightarrow>
      (\<exists>w'. retryWithBackoff (attempt f) timeAfter w = Some (None, w')
         \<and> invocations w' = invocations w + 4 \<and> waits w' = waits w @ [1, 3, 5]
         \<and> sum_list [1, 3, 5] = (9::nat)))"
proof (intro conjI impI)
  assume a: "(\<forall>k<n. snd (f (replies w (invocations w + k))) \<noteq> None \<and> \<not> ctxDone w (length (waits w) + k))
      \<and> snd (f (replies w (invocations w + n))) = None"
  then have "\<forall>k<n. fails f w k \<and> elapses w k" "\<not> fails f w n"
    by (simp_all add: fails_def elapses_def)
  then show "retryWithBackoff (attempt f) timeAfter w =
        Some (None, w\<lparr>invocations := invocations w + n + 1,
                       waits := waits w @ take n ([1, 3, 5, 10, 15, 30, 45, 60] @ replicate n 60),
                       captured := fst (f (replies w (invocations w + n)))\<rparr>)"
    using retry_succeeds [of n f w] by (simp add: delays_def)
next
  assume "\<forall>k. snd (f (replies w (invocations w + k))) \<noteq> None \<and> \<not> ctxDone w (length (waits w) + k)"
  then have "\<forall>k. fails f w k \<and> elapses w k" by (simp add: fails_def elapses_def)
  then show "retryWithBackoff (attempt f) timeAfter w = None" by (rule retry_diverges)
next
  assume a: "(\<forall>k<3. snd (f (replies w (invocations w + k))) \<noteq> None \<and> \<not> ctxDone w (length (waits w) + k))
      \<and> snd (f (replies w (invocations w + 3))) = None"
  then have "\<forall>k<3. fails f w k \<and> elapses w k" "\<not> fails f w 3"
    by (simp_all add: fails_def elapses_def)
  then have "retryWithBackoff (attempt f) timeAfter w =
        Some (None, w\<lparr>invocations := invocations w + 3 + 1,
                       waits := waits w @ take 3 (delays @ replicate 3 60),
                       captured := fst (f (replies w (invocations w + 3)))\<rparr>)"
    by (rule retry_succeeds)
  then show "\<exists>w'. retryWithBackoff (attempt f) timeAfter w = Some (None, w')
         \<and> invocations w' = invocations w + 4 \<and> waits w' = waits w @ [1, 3, 5]
         \<and> sum_list [1, 3, 5] = (9::nat)"
    by (simp add: delays_def)
qed

theorem retry_follows_schedule_witness:
  "retryWithBackoff (attempt (\<lambda>r. ((), r))) timeAfter
     (world0 (\<lambda>k. if k < 3 then Some RequestFailed else None) (\<lambda>k. False) ()) =
   Some (None, \<lparr>replies = (\<lambda>k. if k < 3 then Some RequestFailed else None),
                ctxDone = (\<lambda>k. False), invocations = 4, waits = [1, 3, 5], captured = ()\<rparr>)
   \<and> retryWithBackoff (attempt (\<lambda>r. ((), r))) timeAfter
     (world0 (\<lambda>k. Some RequestFailed) (\<lambda>k. False) ()) = None"
  using retry_follows_schedule [of 3 "\<lambda>r. ((), r)"
          "world0 (\<lambda>k. if k < 3 then Some RequestFailed else None) (\<lambda>k. False) ()"]
        retry_follows_schedule [of 0 "\<lambda>r. ((), r)"
          "world0 (\<lambda>k. Some RequestFailed) (\<lambda>k. False) ()"]
  by (simp add: world0_def)

section \<open>Properties of the number formats\<close>

lemma powi_nat: "0 \<le> e \<Longrightarrow> (2::rat) powi e = 2 ^ nat e"
  by (simp add: power_int_def)

lemma ilog2_parts:
  assumes "0 < a"
  obtains p q where "quotient_of a = (p, q)" "0 < p" "0 < q" "a = of_int p / of_int q"
    "(2::rat) powi (bitlen p - 1) \<le> of_int p" "of_int p < (2::rat) powi bitlen p"
    "(2::rat) powi (bitlen q - 1) \<le> of_int q" "of_int q < (2::rat) powi bitlen q"
proof -
  obtain p q where pq: "quotient_of a = (p, q)" by (cases "quotient_of a")
  have q: "0 < q" using pq by (rule quotient_of_denom_pos)
  have a: "a = of_int p / of_int q" using pq by (rule quotient_of_div)
  have p: "0 < p" using assms a q by (simp add: zero_less_divide_iff)
  have bp: "1 \<le> bitlen p" "1 \<le> bitlen q" using p q by (simp_all add: bitlen_alt_def)
  have "(2::int) ^ nat (bitlen p - 1) \<le> p" "p < 2 ^ nat (bitlen p)"
       "(2::int) ^ nat (bitlen q - 1) \<le> q" "q < 2 ^ nat (bitlen q)"
    using bitlen_bounds [OF p] bitlen_bounds [OF q] by simp_all
  then have "(of_int ((2::int) ^ nat (bitlen p - 1)) :: rat) \<le> of_int p"
       "(of_int p :: rat) < of_int (2 ^ nat (bitlen p))"
       "(of_int ((2::int) ^ nat (bitlen q - 1)) :: rat) \<le> of_int q"
       "(of_int q :: rat) < of_int (2 ^ nat (bitlen q))"
    by (simp_all only: of_int_le_iff of_int_less_iff)
  then have "(2::rat) powi (bitlen p - 1) \<le> of_int p" "of_int p < (2::rat) powi bitlen p"
    "(2::rat) powi (bitlen q - 1) \<le> of_int q" "of_int q < (2::rat) powi bitlen q"
    using bp by (simp_all add: powi_nat)
  then show thesis using that pq p q a by blast
qed

lemma ilog2_lower:
  assumes "0 < a"
  shows "2 powi ilog2 a \<le> a"
proof -
  obtain p q where pq: "quotient_of a = (p, q)" "0 < p" "0 < q" "a = of_int p / of_int q"
    "(2::rat) powi (bitlen p - 1) \<le> of_int p" "of_int q < (2::rat) powi bitlen q"
    using assms by (rule ilog2_parts)
  let ?e = "bitlen p - bitlen q"
  have "(2::rat) powi (?e - 1) = 2 powi (bitlen p - 1) / 2 powi bitlen q"
    using power_int_diff [of "2::rat" "bitlen p - 1" "bitlen q"] by (simp add: algebra_simps)
  also have "\<dots> \<le> of_int p / of_int q"
    using pq by (intro frac_le) simp_all
  finally have "(2::rat) powi (?e - 1) \<le> a" using pq by simp
  then show ?thesis using pq(1) by (simp add: ilog2_def Let_def)
qed

lemma ilog2_upper:
  assumes "0 < a"
  shows "a < 2 powi (ilog2 a + 1)"
proof -
  obtain p q where pq: "quotient_of a = (p, q)" "0 < p" "0 < q" "a = of_int p / of_int q"
    "of_int p < (2::rat) powi bitlen p" "(2::rat) powi (bitlen q - 1) \<le> of_int q"
    using assms by (rule ilog2_parts)
  let ?e = "bitlen p - bitlen q"
  have "of_int p / of_int q < (2::rat) powi bitlen p / 2 powi (bitlen q - 1)"
    using pq by (intro frac_less) simp_all
  also have "\<dots> = 2 powi (?e + 1)"
    using power_int_diff [of "2::rat" "bitlen p" "bitlen q - 1"] by (simp add: algebra_simps)
  finally have "a < (2::rat) powi (?e + 1)" using pq by simp
  then show ?thesis using pq(1) by (simp add: ilog2_def Let_def)
qed

lemma ilog2_less:
  assumes "0 < r" and "r < 2 powi e"
  shows "ilog2 r < e"
proof (rule ccontr)
  assume "\<not> ilog2 r < e"
  then have "(2::rat) powi e \<le> 2 powi ilog2 r"
    by (intro power_int_increasing) simp_all
  also have "\<dots> \<le> r" using assms(1) by (rule ilog2_lower)
  finally show False using assms(2) by simp
qed

lemma ilog2_zero: "ilog2 0 = - 2"
  by (simp add: ilog2_def bitlen_alt_def power_int_def)

lemma roundHalfEven_near:
  "\<bar>of_int (roundHalfEven x) - x\<bar> \<le> 1 / 2"
proof -
  have "of_int \<lfloor>x\<rfloor> \<le> x" "x < of_int \<lfloor>x\<rfloor> + 1"
    by linarith+
  then show ?thesis
    unfolding roundHalfEven_def Let_def by (simp add: abs_le_iff)
qed

lemma roundHalfEven_nonneg: "0 \<le> x \<Longrightarrow> 0 \<le> roundHalfEven x"
  unfolding roundHalfEven_def Let_def by auto

lemma roundHalfEven_le_double:
  assumes "0 \<le> x"
  shows "of_int (roundHalfEven x) \<le> 2 * x"
proof (cases "x < 1 / 2")
  case True
  then have "\<lfloor>x\<rfloor> = 0" using assms by (simp add: floor_eq_iff)
  then have "roundHalfEven x = 0" using True by (simp add: roundHalfEven_def)
  then show ?thesis using assms by simp
next
  case False
  then have "1 / 2 \<le> x" by simp
  moreover have "of_int (roundHalfEven x) - x \<le> 1 / 2"
    using roundHalfEven_near [of x] by (simp only: abs_le_iff)
  ultimately show ?thesis by linarith
qed

lemma roundHalfEven_of_int [simp]: "roundHalfEven (of_int m) = m"
  by (simp add: roundHalfEven_def)

lemma round64_nonneg_finite:
  assumes "0 \<le> x" and "x < 2 powi 1023"
  shows "\<exists>r. round64 x = Finite r \<and> 0 \<le> r \<and> r \<le> 2 * x"
proof (cases "x = 0")
  case True
  then show ?thesis by (simp add: round64_def)
next
  case False
  then have pos: "0 < x" using assms(1) by simp
  define quantum :: rat where "quantum = 2 powi (max (ilog2 \<bar>x\<bar>) (- 1022) - 52)"
  define r where "r = of_int (roundHalfEven (\<bar>x\<bar> / quantum)) * quantum"
  have q: "0 < quantum" by (simp add: quantum_def)
  have r0: "0 \<le> r" using q pos by (simp add: r_def roundHalfEven_nonneg)
  have "of_int (roundHalfEven (\<bar>x\<bar> / quantum)) \<le> 2 * (\<bar>x\<bar> / quantum)"
    using q pos by (intro roundHalfEven_le_double) simp
  then have "r \<le> 2 * (\<bar>x\<bar> / quantum) * quantum"
    unfolding r_def using q by (intro mult_right_mono) simp_all
  then have r2: "r \<le> 2 * x" using q pos by simp
  have "ilog2 r < 1024"
  proof (cases "r = 0")
    case True
    then show ?thesis by (simp add: ilog2_zero)
  next
    case False
    have "r < 2 * 2 powi 1023" using r2 assms(2) by simp
    also have "\<dots> = (2::rat) powi 1024"
      using power_int_add [of "2::rat" 1 1023] by simp
    finally show ?thesis using False r0 by (intro ilog2_less) simp_all
  qed
  then have "round64 x = Finite r"
    using False pos by (simp add: round64_def Let_def r_def quantum_def)
  then show ?thesis using r0 r2 by simp
qed

text \<open>
  The error of one rounding. A rational below the overflow range rounds to a finite value
  that differs from it by at most half the spacing at its exponent: \<open>2 powi (- 53)\<close> of its
  magnitude in the normal range, \<open>2 powi (- 1075)\<close> among the subnormals. Integers below
  \<open>2 ^ 53\<close> in magnitude are values of the format, so that their conversion is exact.
\<close>

lemma ilog2_ge:
  assumes "0 < a" and "2 powi k \<le> a"
  shows "k \<le> ilog2 a"
proof (rule ccontr)
  assume "\<not> k \<le> ilog2 a"
  then have "(2::rat) powi (ilog2 a + 1) \<le> 2 powi k"
    by (intro power_int_increasing) simp_all
  then show False using ilog2_upper [OF assms(1)] assms(2) by simp
qed

lemma round64_error:
  assumes "\<bar>x\<bar> < 2 powi 1023"
  shows "\<exists>y. round64 x = Finite y \<and> \<bar>y - x\<bar> \<le> \<bar>x\<bar> / 2 ^ 53 + 2 powi (- 1075)"
proof (cases "x = 0")
  case True
  then show ?thesis by (simp add: round64_def)
next
  case False
  define a where "a = \<bar>x\<bar>"
  define k where "k = max (ilog2 a) (- 1022) - 52"
  define quantum :: rat where "quantum = 2 powi k"
  define r where "r = of_int (roundHalfEven (a / quantum)) * quantum"
  define t :: rat where "t = 2 powi (- 1075)"
  have a: "0 < a" using False by (simp add: a_def)
  have q: "0 < quantum" by (simp add: quantum_def)
  have t: "0 < t" "t \<le> 2 powi 1022"
    unfolding t_def by (simp, intro power_int_increasing) simp_all
  have "\<bar>of_int (roundHalfEven (a / quantum)) - a / quantum\<bar> * quantum \<le> 1 / 2 * quantum"
    using q roundHalfEven_near [of "a / quantum"] by (intro mult_right_mono) simp_all
  moreover have "\<bar>of_int (roundHalfEven (a / quantum)) - a / quantum\<bar> * quantum = \<bar>r - a\<bar>"
  proof -
    have "r - a = (of_int (roundHalfEven (a / quantum)) - a / quantum) * quantum"
      using q by (simp add: r_def left_diff_distrib)
    then show ?thesis using q by (simp only: abs_mult abs_of_pos)
  qed
  ultimately have near: "\<bar>r - a\<bar> \<le> quantum / 2" by simp
  have half: "quantum / 2 \<le> a / 2 ^ 53 + t"
  proof (cases "- 1022 \<le> ilog2 a")
    case True
    then have "quantum = 2 powi ilog2 a / 2 ^ 52"
      using power_int_diff [of "2::rat" "ilog2 a" 52] by (simp add: quantum_def k_def max_def)
    also have "\<dots> \<le> a / 2 ^ 52" using ilog2_lower [OF a] by (simp add: divide_right_mono)
    finally have "quantum / 2 \<le> a / 2 ^ 53" by simp
    then show ?thesis using t by linarith
  next
    case False
    then have "quantum = 2 powi (- 1074)" by (simp add: quantum_def k_def max_def)
    also have "\<dots> = 2 * 2 powi (- 1075)"
      using power_int_add [of "2::rat" 1 "- 1075"] by simp
    finally have "quantum / 2 = t" by (simp add: t_def)
    then show ?thesis using a by simp
  qed
  have r0: "0 \<le> r" using q a by (simp add: r_def roundHalfEven_nonneg)
  have "ilog2 r < 1024"
  proof (cases "r = 0")
    case True
    then show ?thesis by (simp add: ilog2_zero)
  next
    case False
    have "r \<le> a + (a / 2 ^ 53 + t)" using near half by linarith
    also have "\<dots> < 2 powi 1023 + 2 powi 1023"
    proof -
      have "a / 2 ^ 53 \<le> a / 2" using a by (intro divide_left_mono) simp_all
      moreover note t
      moreover have "(2::rat) powi 1023 = 2 * 2 powi 1022"
        using power_int_add [of "2::rat" 1 1022] by simp
      moreover have "1 \<le> a \<or> a < 1" by linarith
      moreover have "(1::rat) \<le> 2 powi 1022" by (simp add: one_le_power_int)
      ultimately show ?thesis using assms unfolding a_def [symmetric] by linarith
    qed
    also have "\<dots> = (2::rat) powi 1024"
      using power_int_add [of "2::rat" 1 1023] by simp
    finally show ?thesis using False r0 by (intro ilog2_less) simp_all
  qed
  then have "round64 x = Finite (if 0 < x then r else - r)"
    using False by (simp add: round64_def Let_def r_def quantum_def k_def a_def)
  moreover have "\<bar>(if 0 < x then r else - r) - x\<bar> = \<bar>r - a\<bar>"
    using False by (simp add: a_def abs_if)
  ultimately show ?thesis using near half unfolding a_def t_def by simp
qed

lemma round64_of_int:
  assumes "\<bar>k\<bar> < 2 ^ 53"
  shows "round64 (of_int k) = Finite (of_int k)"
proof (cases "k = 0")
  case True
  then show ?thesis by (simp add: round64_def)
next
  case False
  define a :: rat where "a = \<bar>of_int k\<bar>"
  define il where "il = ilog2 a"
  have ak: "a = of_int \<bar>k\<bar>" by (simp add: a_def)
  have "1 \<le> \<bar>k\<bar>" using False by simp
  then have "(1::rat) \<le> of_int \<bar>k\<bar>" by (simp only: of_int_1_le_iff)
  then have a1: "1 \<le> a" using ak by simp
  have "(of_int \<bar>k\<bar> :: rat) < of_int (2 ^ 53)" using assms by (simp only: of_int_less_iff)
  then have a53: "a < 2 powi 53" using ak by simp
  have a: "0 < a" using a1 by simp
  have il0: "0 \<le> il" unfolding il_def using a a1 by (intro ilog2_ge) simp_all
  have il53: "il < 53" unfolding il_def using a a53 by (intro ilog2_less)
  define n where "n = nat (52 - il)"
  have "(2::rat) powi (il - 52) = 2 powi (- int n)" using il53 by (simp add: n_def)
  also have "\<dots> = 1 / 2 ^ n" by (simp add: power_int_minus divide_inverse)
  finally have quantum: "(2::rat) powi (il - 52) = 1 / 2 ^ n" .
  have "a / (1 / 2 ^ n) = of_int (\<bar>k\<bar> * 2 ^ n)" using ak by simp
  then have rhe: "of_int (roundHalfEven (a / (1 / 2 ^ n))) * (1 / 2 ^ n) = a"
    by (simp only: roundHalfEven_of_int) (simp add: ak)
  have "ilog2 a < 1024" using il53 by (simp add: il_def)
  then have "round64 (of_int k) = Finite (if 0 < (of_int k :: rat) then a else - a)"
    using False il0 quantum rhe
    by (simp add: round64_def Let_def a_def [symmetric] il_def [symmetric] max_def)
  then show ?thesis by (simp add: a_def abs_if)
qed

lemma float64_of_int_exact: "\<bar>k\<bar> < 2 ^ 53 \<Longrightarrow> float64_of_int k = Finite (of_int k)"
  by (simp add: float64_of_int_def round64_of_int)

lemma tiny_bound: "(2::rat) powi (- 1075) \<le> 1 / 2 ^ 116"
proof -
  have "(2::rat) powi (- 1075) \<le> 2 powi (- 116)" by (intro power_int_increasing) simp_all
  also have "\<dots> = 1 / 2 ^ 116"
  proof -
    have "(2::rat) powi (- int n) = 1 / 2 ^ n" for n
      by (simp add: power_int_minus divide_inverse)
    from this [of 116] show ?thesis by simp
  qed
  finally show ?thesis .
qed

lemma huge_bound: "(2::rat) ^ 110 \<le> 2 powi 1023"
  using power_int_increasing [of 110 1023 "2::rat"] by simp

text \<open>Rounding, with the error measured in units of a number \<open>e\<close> that is not tiny.\<close>

lemma round64_scaled:
  assumes "\<bar>x\<bar> < 2 powi 1023" and "1 / 2 ^ 53 < \<bar>e\<bar>"
  obtains y where "round64 x = Finite y"
    and "\<bar>y - x\<bar> \<le> \<bar>x\<bar> / 2 ^ 53 + 1 / 2 ^ 116"
    and "\<bar>y / e - x / e\<bar> \<le> \<bar>x / e\<bar> / 2 ^ 53 + 1 / 2 ^ 63"
proof -
  define t :: rat where "t = 2 powi (- 1075)"
  have t: "t \<le> 1 / 2 ^ 116" unfolding t_def by (rule tiny_bound)
  obtain y where y: "round64 x = Finite y" "\<bar>y - x\<bar> \<le> \<bar>x\<bar> / 2 ^ 53 + t"
    using round64_error [OF assms(1)] unfolding t_def by blast
  have e: "0 < \<bar>e\<bar>" using assms(2) by (simp add: less_trans [rotated])
  have "t / \<bar>e\<bar> \<le> (1 / 2 ^ 116) / \<bar>e\<bar>" using t e by (intro divide_right_mono) simp_all
  also have "\<dots> \<le> (1 / 2 ^ 116) / (1 / 2 ^ 53)" using assms(2) by (intro divide_left_mono) simp_all
  also have "\<dots> = 1 / 2 ^ 63" by simp
  finally have te: "t / \<bar>e\<bar> \<le> 1 / 2 ^ 63" .
  have "\<bar>y / e - x / e\<bar> = \<bar>y - x\<bar> / \<bar>e\<bar>" by (simp add: diff_divide_distrib [symmetric])
  also have "\<dots> \<le> (\<bar>x\<bar> / 2 ^ 53 + t) / \<bar>e\<bar>" using y(2) e by (intro divide_right_mono) simp_all
  also have "\<dots> = \<bar>x / e\<bar> / 2 ^ 53 + t / \<bar>e\<bar>" by (simp add: add_divide_distrib)
  finally have "\<bar>y / e - x / e\<bar> \<le> \<bar>x / e\<bar> / 2 ^ 53 + t / \<bar>e\<bar>" .
  then have "\<bar>y / e - x / e\<bar> \<le> \<bar>x / e\<bar> / 2 ^ 53 + 1 / 2 ^ 63" using te by linarith
  moreover have "\<bar>y - x\<bar> \<le> \<bar>x\<bar> / 2 ^ 53 + 1 / 2 ^ 116" using y(2) t by linarith
  ultimately show thesis using that y(1) by blast
qed

lemma digits_small: "n < 10 \<Longrightarrow> digits n = [digit n]"
  by (subst digits.simps) simp

lemma digits_padded: "d < 10 \<Longrightarrow> drop 1 (digits (10 + d)) = [digit d]"
  by (subst digits.simps) (simp add: digits_small)

lemma sprintf_d_nonneg: "0 \<le> k \<Longrightarrow> sprintf_d k = digits (nat k)"
  by (simp add: sprintf_d_def)

lemma fixed_whole:
  assumes "0 \<le> v"
  shows "fixed 0 v = sprintf_d (roundHalfEven v)"
  using assms by (simp add: fixed_def sprintf_d_nonneg roundHalfEven_nonneg)

lemma fixed_one_decimal:
  assumes "0 \<le> v"
  shows "fixed 1 v = sprintf_d (roundHalfEven (v * 10) div 10) @ ''.'' @
                     sprintf_d (roundHalfEven (v * 10) mod 10)"
proof -
  define k where "k = roundHalfEven (v * 10)"
  have k: "0 \<le> k" unfolding k_def using assms by (intro roundHalfEven_nonneg) simp
  have m: "nat k mod 10 < 10" by simp
  have "sprintf_d (k mod 10) = [digit (nat k mod 10)]"
    using k by (simp add: sprintf_d_nonneg digits_small nat_mod_distrib)
  moreover have "sprintf_d (k div 10) = digits (nat k div 10)"
    using k by (simp add: sprintf_d_nonneg nat_div_distrib pos_imp_zdiv_nonneg_iff)
  ultimately show ?thesis
    using digits_padded [OF m] by (simp add: fixed_def Let_def k_def)
qed

lemma fixed_one_decimal_Suc:
  "0 \<le> v \<Longrightarrow>
   fixed (Suc 0) v = sprintf_d (roundHalfEven (v * 10) div 10) @ ''.'' @
                     sprintf_d (roundHalfEven (v * 10) mod 10)"
  using fixed_one_decimal [of v] by simp

lemma quotient64:
  assumes "0 \<le> n" and "n < 2 ^ 63" and "0 < d" and "1 \<le> d"
  shows "\<exists>v. fdiv (float64_of_int n) (Finite d) = Finite v \<and> 0 \<le> v"
proof -
  have "(of_int n :: rat) < of_int (2 ^ 63)" using assms(2) by (simp only: of_int_less_iff)
  then have n63: "(of_int n :: rat) < 2 ^ 63" by simp
  have big: "(2::rat) ^ 64 \<le> 2 powi 1023"
    using power_int_increasing [of 64 1023 "2::rat"] by simp
  have "(of_int n :: rat) < 2 powi 1023" using n63 big by simp
  then obtain a where a: "round64 (of_int n) = Finite a" "0 \<le> a" "a \<le> 2 * of_int n"
    using round64_nonneg_finite [of "of_int n"] assms(1) by auto
  have "a * 1 \<le> a * d" using assms(4) a(2) by (intro mult_left_mono) simp_all
  then have "a / d \<le> a" using assms(3) by (simp add: divide_le_eq)
  then have "a / d < 2 powi 1023" using a(3) n63 big by simp
  moreover have "0 \<le> a / d" using a(2) assms(3) by simp
  ultimately obtain v where "round64 (a / d) = Finite v" "0 \<le> v"
    using round64_nonneg_finite [of "a / d"] by auto
  then show ?thesis using a(1) assms(3) by (simp add: float64_of_int_def)
qed

lemma formatViewers_950: "formatViewers 950 = ''950''" by code_simp
lemma formatViewers_1500: "formatViewers 1500 = ''1.5K''" by code_simp
lemma formatViewers_25000: "formatViewers 25000 = ''25K''" by code_simp
lemma formatViewers_2500000: "formatViewers 2500000 = ''2.5M''" by code_simp
lemma formatViewers_12000000: "formatViewers 12000000 = ''12M''" by code_simp

text \<open>
  C9: for a count \<open>n\<close> that is not negative, \<open>formatViewers\<close> renders the count in
  millions with the suffix \<open>M\<close> when \<open>n\<close> is at least 1,000,000, as a whole number
  when that value is at least 10 and with one decimal otherwise; the count in thousands
  with the suffix \<open>K\<close>, as a whole number from 10,000 on and with one decimal from 1,000
  on; and the plain integer below 1,000. The value rendered is the \<open>float64\<close> quotient
  \<open>v\<close>, rounded to the nearest integer or tenth. The five examples of the specification
  are rendered as it says.
\<close>

theorem formatViewers_abbreviates:
  assumes "0 \<le> n" and "n < 2 ^ 63"
  shows
    "(1000000 \<le> n \<longrightarrow>
        (\<exists>v. fdiv (float64_of_int n) (Finite 1000000) = Finite v \<and> 0 \<le> v \<and>
           formatViewers n =
             (if 10 \<le> v then sprintf_d (roundHalfEven v)
              else sprintf_d (roundHalfEven (v * 10) div 10) @ ''.'' @
                   sprintf_d (roundHalfEven (v * 10) mod 10)) @ ''M''))
     \<and> (10000 \<le> n \<and> n < 1000000 \<longrightarrow>
        (\<exists>v. fdiv (float64_of_int n) (Finite 1000) = Finite v \<and> 0 \<le> v \<and>
           formatViewers n = sprintf_d (roundHalfEven v) @ ''K''))
     \<and> (1000 \<le> n \<and> n < 10000 \<longrightarrow>
        (\<exists>v. fdiv (float64_of_int n) (Finite 1000) = Finite v \<and> 0 \<le> v \<and>
           formatViewers n =
             sprintf_d (roundHalfEven (v * 10) div 10) @ ''.'' @
             sprintf_d (roundHalfEven (v * 10) mod 10) @ ''K''))
     \<and> (n < 1000 \<longrightarrow> formatViewers n = sprintf_d n)
     \<and> formatViewers 950 = ''950'' \<and> formatViewers 1500 = ''1.5K''
     \<and> formatViewers 25000 = ''25K'' \<and> formatViewers 2500000 = ''2.5M''
     \<and> formatViewers 12000000 = ''12M''"
proof -
  obtain m where m: "fdiv (float64_of_int n) (Finite 1000000) = Finite m" "0 \<le> m"
    using quotient64 [OF assms, of 1000000] by auto
  obtain k where k: "fdiv (float64_of_int n) (Finite 1000) = Finite k" "0 \<le> k"
    using quotient64 [OF assms, of 1000] by auto
  have millions: "1000000 \<le> n \<Longrightarrow> formatViewers n =
             (if 10 \<le> m then sprintf_d (roundHalfEven m)
              else sprintf_d (roundHalfEven (m * 10) div 10) @ ''.'' @
                   sprintf_d (roundHalfEven (m * 10) mod 10)) @ ''M''"
    using m by (simp add: formatViewers_def fgreater_eq_def fixed_whole fixed_one_decimal_Suc not_less)
  have thousands: "10000 \<le> n \<Longrightarrow> n < 1000000 \<Longrightarrow>
      formatViewers n = sprintf_d (roundHalfEven k) @ ''K''"
    using k by (simp add: formatViewers_def fixed_whole)
  have thousand: "1000 \<le> n \<Longrightarrow> n < 10000 \<Longrightarrow>
      formatViewers n = sprintf_d (roundHalfEven (k * 10) div 10) @ ''.'' @
             sprintf_d (roundHalfEven (k * 10) mod 10) @ ''K''"
    using k by (simp add: formatViewers_def fixed_one_decimal_Suc)
  have plain: "n < 1000 \<Longrightarrow> formatViewers n = sprintf_d n"
    by (simp add: formatViewers_def)
  show ?thesis
    using m k millions thousands thousand plain
      formatViewers_950 formatViewers_1500 formatViewers_25000 formatViewers_2500000
      formatViewers_12000000
    by simp
qed

theorem formatViewers_abbreviates_witness:
  "\<exists>v. fdiv (float64_of_int 1250) (Finite 1000) = Finite v \<and> 0 \<le> v \<and>
       formatViewers 1250 =
         sprintf_d (roundHalfEven (v * 10) div 10) @ ''.'' @
         sprintf_d (roundHalfEven (v * 10) mod 10) @ ''K''"
  using formatViewers_abbreviates [of 1250] by simp

section \<open>Properties of the trend and of the update message\<close>

text \<open>
  The sums of \<open>viewerTrend\<close>. As long as the absolute values of the counts add up to
  less than \<open>2 ^ 53\<close>, every partial sum is an integer that \<open>float64\<close> holds exactly,
  and the mean of a half is the exact mean rounded once.
\<close>

lemma float_sum_exact:
  "\<bar>z\<bar> + (\<Sum>p\<leftarrow>ps. \<bar>Count p\<bar>) < 2 ^ 53 \<Longrightarrow>
   foldl (\<lambda>acc p. fadd acc (float64_of_int (Count p))) (Finite (of_int z)) ps =
   Finite (of_int (z + (\<Sum>p\<leftarrow>ps. Count p)))"
proof (induction ps arbitrary: z)
  case Nil
  then show ?case by simp
next
  case (Cons p ps)
  have nonneg: "0 \<le> (\<Sum>p\<leftarrow>ps. \<bar>Count p\<bar>)" by (rule sum_list_nonneg) auto
  have c: "\<bar>Count p\<bar> < 2 ^ 53" using Cons.prems nonneg by simp
  have zc: "\<bar>z + Count p\<bar> < 2 ^ 53" using Cons.prems nonneg by simp
  have "fadd (Finite (of_int z)) (float64_of_int (Count p)) = round64 (of_int (z + Count p))"
    using c by (simp add: float64_of_int_exact)
  also have "\<dots> = Finite (of_int (z + Count p))" using zc by (rule round64_of_int)
  finally have step: "fadd (Finite (of_int z)) (float64_of_int (Count p)) =
      Finite (of_int (z + Count p))" .
  have "\<bar>z + Count p\<bar> + (\<Sum>p\<leftarrow>ps. \<bar>Count p\<bar>) < 2 ^ 53" using Cons.prems by simp
  then show ?case using Cons.IH [of "z + Count p"] step by (simp add: add.assoc)
qed

lemma sum_abs_counts: "\<bar>\<Sum>p\<leftarrow>ps. Count p\<bar> \<le> (\<Sum>p\<leftarrow>ps. \<bar>Count p\<bar>)"
  by (induction ps) auto

lemma sum_abs_nonneg: "0 \<le> (\<Sum>p\<leftarrow>ps. \<bar>Count p\<bar>)"
  by (rule sum_list_nonneg) auto

lemma sum_abs_halves:
  "(\<Sum>p\<leftarrow>take n ps. \<bar>Count p\<bar>) + (\<Sum>p\<leftarrow>drop n ps. \<bar>Count p\<bar>) = (\<Sum>p\<leftarrow>ps. \<bar>Count p\<bar>)"
proof -
  have "(\<Sum>p\<leftarrow>take n ps @ drop n ps. \<bar>Count p\<bar>) = (\<Sum>p\<leftarrow>ps. \<bar>Count p\<bar>)" by simp
  then show ?thesis by (simp only: map_append sum_list_append)
qed

text \<open>The mean of a half whose counts sum exactly: the quotient rounded once.\<close>

lemma float_mean:
  assumes "0 < length ps" and "length ps < 2 ^ 53" and "(\<Sum>p\<leftarrow>ps. \<bar>Count p\<bar>) < 2 ^ 53"
  shows "fdiv (foldl (\<lambda>acc p. fadd acc (float64_of_int (Count p))) (Finite 0) ps)
              (float64_of_int (int (length ps))) =
         round64 (spec_mean (map Count ps))"
proof -
  have "foldl (\<lambda>acc p. fadd acc (float64_of_int (Count p))) (Finite (of_int 0)) ps =
        Finite (of_int (0 + (\<Sum>p\<leftarrow>ps. Count p)))"
    using assms(3) by (intro float_sum_exact) simp
  moreover have "float64_of_int (int (length ps)) = Finite (of_int (int (length ps)))"
    using assms(2) by (intro float64_of_int_exact) simp
  ultimately show ?thesis using assms(1) by (simp add: spec_mean_def)
qed

lemma mean_bounds:
  assumes "0 < length ps" and "length ps < 2 ^ 53" and "(\<Sum>p\<leftarrow>ps. \<bar>Count p\<bar>) < 2 ^ 53"
  shows "\<bar>spec_mean (map Count ps)\<bar> < 2 ^ 53"
    and "spec_mean (map Count ps) \<noteq> 0 \<Longrightarrow> 1 / 2 ^ 53 < \<bar>spec_mean (map Count ps)\<bar>"
proof -
  define s where "s = (\<Sum>p\<leftarrow>ps. Count p)"
  define n :: rat where "n = of_nat (length ps)"
  have mean: "spec_mean (map Count ps) = of_int s / n" by (simp add: spec_mean_def s_def n_def)
  have n1: "1 \<le> n" using assms(1) by (simp add: n_def Suc_le_eq)
  have "(of_nat (length ps) :: rat) < of_nat (2 ^ 53)" using assms(2) by (simp only: of_nat_less_iff)
  then have n53: "n < 2 ^ 53" by (simp add: n_def)
  have "\<bar>s\<bar> < 2 ^ 53" using sum_abs_counts [of ps] assms(3) by (simp add: s_def)
  then have "(of_int \<bar>s\<bar> :: rat) < of_int (2 ^ 53)" by (simp only: of_int_less_iff)
  then have s53: "\<bar>of_int s :: rat\<bar> < 2 ^ 53" by simp
  have "\<bar>of_int s / n\<bar> = \<bar>of_int s\<bar> / n" using n1 by simp
  also have "\<dots> \<le> \<bar>of_int s\<bar> / 1" using n1 by (intro divide_left_mono) simp_all
  finally show "\<bar>spec_mean (map Count ps)\<bar> < 2 ^ 53" using s53 mean by simp
  show "1 / 2 ^ 53 < \<bar>spec_mean (map Count ps)\<bar>" if "spec_mean (map Count ps) \<noteq> 0"
  proof -
    have "s \<noteq> 0" using that mean by auto
    then have "1 \<le> \<bar>s\<bar>" by simp
    then have "(1::rat) \<le> of_int \<bar>s\<bar>" by (simp only: of_int_1_le_iff)
    then have s1: "1 \<le> \<bar>of_int s :: rat\<bar>" by simp
    have "1 / 2 ^ 53 < 1 / n" using n1 n53 by (intro divide_strict_left_mono) simp_all
    also have "\<dots> \<le> \<bar>of_int s\<bar> / n" using s1 n1 by (intro divide_right_mono) simp_all
    also have "\<dots> = \<bar>of_int s / n\<bar>" using n1 by simp
    finally show ?thesis using mean by simp
  qed
qed

text \<open>
  The error of the relative change. Measured in units of the early mean, the four
  roundings of \<open>viewerTrend\<close> (of the two means, of their difference and of the
  quotient) each add a relative error of at most \<open>2 powi (- 53)\<close>, and an absolute one
  that is far smaller; together they move the quotient \<open>q - 1\<close> by less than
  \<open>17 / 2 ^ 55\<close> of \<open>2 + \<bar>q - 1\<bar>\<close>.
\<close>

lemma quotient_error:
  fixes q E L D R :: rat
  assumes E: "\<bar>E - 1\<bar> \<le> 1 / 2 ^ 53 + 1 / 2 ^ 63"
    and L: "\<bar>L - q\<bar> \<le> \<bar>q\<bar> / 2 ^ 53 + 1 / 2 ^ 63"
    and D: "\<bar>D - (L - E)\<bar> \<le> \<bar>L - E\<bar> / 2 ^ 53 + 1 / 2 ^ 63"
    and R: "\<bar>R - D / E\<bar> \<le> \<bar>D / E\<bar> / 2 ^ 53 + 1 / 2 ^ 63"
  shows "\<bar>R - (q - 1)\<bar> \<le> 17 / 2 ^ 55 * (2 + \<bar>q - 1\<bar>)"
proof -
  define X where "X = D / E"
  have small: "(1 / 2 ^ 53 + 1 / 2 ^ 63 :: rat) < 1" by simp
  have E0: "0 < E" using E small by linarith
  have DX: "D = X * E" using E0 by (simp add: X_def)
  have "\<bar>(q - 1) * (E - 1)\<bar> = \<bar>q - 1\<bar> * \<bar>E - 1\<bar>" by (rule abs_mult)
  also have "\<dots> \<le> \<bar>q - 1\<bar> * (1 / 2 ^ 53 + 1 / 2 ^ 63)"
    using E by (intro mult_left_mono) simp_all
  finally have cross: "\<bar>(q - 1) * (E - 1)\<bar> \<le> \<bar>q - 1\<bar> * (1 / 2 ^ 53 + 1 / 2 ^ 63)" .
  have "D - (q - 1) * E = (D - (q - 1)) - (q - 1) * (E - 1)" by (simp add: algebra_simps)
  then have "\<bar>D - (q - 1) * E\<bar> \<le> \<bar>D - (q - 1)\<bar> + \<bar>(q - 1) * (E - 1)\<bar>" by simp
  then have num: "\<bar>D - (q - 1) * E\<bar> \<le> \<bar>D - (q - 1)\<bar> + \<bar>q - 1\<bar> * (1 / 2 ^ 53 + 1 / 2 ^ 63)"
    using cross by simp
  have "\<bar>X - (q - 1)\<bar> * E = \<bar>(X - (q - 1)) * E\<bar>" using E0 by (simp only: abs_mult abs_of_pos)
  also have "\<dots> = \<bar>D - (q - 1) * E\<bar>" using DX by (simp add: algebra_simps)
  finally have scaled: "\<bar>X - (q - 1)\<bar> * E = \<bar>D - (q - 1) * E\<bar>" .
  have "\<bar>X - (q - 1)\<bar> * (1 - (1 / 2 ^ 53 + 1 / 2 ^ 63)) \<le> \<bar>X - (q - 1)\<bar> * E"
    using E small by (intro mult_left_mono) linarith+
  then have X: "\<bar>X - (q - 1)\<bar> * (1 - (1 / 2 ^ 53 + 1 / 2 ^ 63)) \<le>
      \<bar>D - (q - 1)\<bar> + \<bar>q - 1\<bar> * (1 / 2 ^ 53 + 1 / 2 ^ 63)"
    using scaled num by simp
  have diff: "\<bar>L - E\<bar> \<le> \<bar>q - 1\<bar> + \<bar>L - q\<bar> + \<bar>E - 1\<bar>" by linarith
  have D': "\<bar>D - (q - 1)\<bar> \<le> \<bar>D - (L - E)\<bar> + \<bar>L - q\<bar> + \<bar>E - 1\<bar>" by linarith
  have q: "\<bar>q\<bar> \<le> 1 + \<bar>q - 1\<bar>" by linarith
  have RX: "\<bar>R - (q - 1)\<bar> \<le> \<bar>R - X\<bar> + \<bar>X - (q - 1)\<bar>" by linarith
  have XX: "\<bar>X\<bar> \<le> \<bar>q - 1\<bar> + \<bar>X - (q - 1)\<bar>" by linarith
  have R': "\<bar>R - X\<bar> \<le> \<bar>X\<bar> / 2 ^ 53 + 1 / 2 ^ 63" using R by (simp add: X_def)
  define a where "a = \<bar>q - 1\<bar>"
  define b where "b = \<bar>X - (q - 1)\<bar>"
  define c where "c = \<bar>D - (q - 1)\<bar>"
  define d where "d = \<bar>L - E\<bar>"
  define e where "e = \<bar>D - (L - E)\<bar>"
  define f where "f = \<bar>L - q\<bar>"
  define g where "g = \<bar>E - 1\<bar>"
  define h where "h = \<bar>R - X\<bar>"
  define i where "i = \<bar>X\<bar>"
  define j where "j = \<bar>q\<bar>"
  have nonneg: "0 \<le> a" "0 \<le> b" by (simp_all add: a_def b_def)
  have "\<bar>R - (q - 1)\<bar> \<le> h + b" using RX by (simp add: h_def b_def)
  moreover have "h + b \<le> 17 / 2 ^ 55 * (2 + a)"
    using X diff D' q XX R' E L D nonneg
    unfolding a_def [symmetric] b_def [symmetric] c_def [symmetric] d_def [symmetric]
      e_def [symmetric] f_def [symmetric] g_def [symmetric] h_def [symmetric]
      i_def [symmetric] j_def [symmetric]
    by simp
  ultimately show ?thesis by (simp add: a_def)
qed

lemma seven_percent: "round64 (7 / 100) = Finite (5044031582654956 / 2 ^ 56)"
  by code_simp

lemma minus_seven_percent: "round64 (- (7 / 100)) = Finite (- (5044031582654956 / 2 ^ 56))"
  by code_simp

text \<open>
  The number that \<open>viewerTrend\<close> compares with the thresholds, and its distance from
  the exact relative change.
\<close>

lemma trend_rounded:
  assumes len: "4 \<le> length history" "length history < 2 ^ 53"
    and sum: "(\<Sum>p\<leftarrow>history. \<bar>Count p\<bar>) < 2 ^ 53"
    and nz: "spec_mean (spec_early history) \<noteq> 0"
  obtains R where
    "viewerTrend history loc =
       (if 5044031582654956 / 2 ^ 56 < R then Growing loc
        else if R < - (5044031582654956 / 2 ^ 56) then Dropping loc
        else Steady loc)"
    and "\<bar>R - spec_relative_change history\<bar> \<le>
           17 / 2 ^ 55 * (2 + \<bar>spec_relative_change history\<bar>)"
proof -
  define mid where "mid = length history div 2"
  define e where "e = spec_mean (spec_early history)"
  define l where "l = spec_mean (spec_late history)"
  have early_len: "length (take mid history) = mid" "0 < length (take mid history)"
      "length (take mid history) < 2 ^ 53"
    using len by (simp_all add: mid_def)
  have late_len: "length (drop mid history) = length history - mid" "0 < length (drop mid history)"
      "length (drop mid history) < 2 ^ 53"
    using len by (simp_all add: mid_def)
  have sums: "(\<Sum>p\<leftarrow>take mid history. \<bar>Count p\<bar>) < 2 ^ 53"
      "(\<Sum>p\<leftarrow>drop mid history. \<bar>Count p\<bar>) < 2 ^ 53"
    using sum sum_abs_halves [of mid history] sum_abs_nonneg [of "take mid history"]
      sum_abs_nonneg [of "drop mid history"]
    by simp_all
  have e_eq: "e = spec_mean (map Count (take mid history))"
    and l_eq: "l = spec_mean (map Count (drop mid history))"
    by (simp_all add: e_def l_def spec_early_def spec_late_def mid_def)
  have early: "fdiv (foldl (\<lambda>acc p. fadd acc (float64_of_int (Count p))) (Finite 0) (take mid history))
                 (float64_of_int (int mid)) = round64 e"
    using float_mean [OF early_len(2,3) sums(1)] early_len(1) e_eq by simp
  have late: "fdiv (foldl (\<lambda>acc p. fadd acc (float64_of_int (Count p))) (Finite 0) (drop mid history))
                 (float64_of_int (int (length history - mid))) = round64 l"
    using float_mean [OF late_len(2,3) sums(2)] late_len(1) l_eq by simp
  have e53: "\<bar>e\<bar> < 2 ^ 53" "1 / 2 ^ 53 < \<bar>e\<bar>"
    using mean_bounds [OF early_len(2,3) sums(1)] nz e_eq by (simp_all add: e_def)
  have l53: "\<bar>l\<bar> < 2 ^ 53"
    using mean_bounds(1) [OF late_len(2,3) sums(2)] l_eq by simp
  have e0: "e \<noteq> 0" using nz by (simp add: e_def)
  have range: "x < 2 ^ 110 \<Longrightarrow> x < 2 powi 1023" for x :: rat
    using huge_bound by simp
  obtain E where E: "round64 e = Finite E" "\<bar>E - e\<bar> \<le> \<bar>e\<bar> / 2 ^ 53 + 1 / 2 ^ 116"
      "\<bar>E / e - e / e\<bar> \<le> \<bar>e / e\<bar> / 2 ^ 53 + 1 / 2 ^ 63"
    using e53 by (elim round64_scaled [of e e, rotated 2]) (intro range, simp, simp)
  obtain L where L: "round64 l = Finite L" "\<bar>L - l\<bar> \<le> \<bar>l\<bar> / 2 ^ 53 + 1 / 2 ^ 116"
      "\<bar>L / e - l / e\<bar> \<le> \<bar>l / e\<bar> / 2 ^ 53 + 1 / 2 ^ 63"
    using e53 l53 by (elim round64_scaled [of l e, rotated 2]) (intro range, simp, simp)
  define ae where "ae = \<bar>e\<bar>"
  define al where "al = \<bar>l\<bar>"
  define aE where "aE = \<bar>E\<bar>"
  define aL where "aL = \<bar>L\<bar>"
  define dE where "dE = \<bar>E - e\<bar>"
  define dL where "dL = \<bar>L - l\<bar>"
  define aLE where "aLE = \<bar>L - E\<bar>"
  have tri: "aE \<le> ae + dE" "ae \<le> aE + dE" "aL \<le> al + dL" "aLE \<le> aL + aE"
    unfolding ae_def al_def aE_def aL_def dE_def dL_def aLE_def by linarith+
  have LE: "aLE < 2 ^ 55" and Elow: "1 / 2 ^ 54 < aE"
    using tri E(2) L(2) e53 l53
    unfolding ae_def [symmetric] al_def [symmetric] aE_def [symmetric] aL_def [symmetric]
      dE_def [symmetric] dL_def [symmetric] aLE_def [symmetric]
    by simp_all
  then have E0: "E \<noteq> 0" by (auto simp add: aE_def)
  obtain D where D: "round64 (L - E) = Finite D"
      "\<bar>D - (L - E)\<bar> \<le> \<bar>L - E\<bar> / 2 ^ 53 + 1 / 2 ^ 116"
      "\<bar>D / e - (L - E) / e\<bar> \<le> \<bar>(L - E) / e\<bar> / 2 ^ 53 + 1 / 2 ^ 63"
    using e53 LE unfolding aLE_def
    by (elim round64_scaled [of "L - E" e, rotated 2]) (intro range, simp, simp)
  define aD where "aD = \<bar>D\<bar>"
  define dD where "dD = \<bar>D - (L - E)\<bar>"
  have "aD \<le> aLE + dD" unfolding aD_def aLE_def dD_def by linarith
  then have Dhigh: "aD < 2 ^ 56"
    using LE D(2) unfolding aLE_def [symmetric] dD_def [symmetric] by simp
  have "\<bar>D / E\<bar> = aD / aE" by (simp add: aD_def aE_def)
  also have "\<dots> < 2 ^ 56 / (1 / 2 ^ 54)"
    using Dhigh Elow by (intro frac_less) (simp_all add: aD_def)
  also have "\<dots> = 2 ^ 110" by simp
  finally have "\<bar>D / E\<bar> < 2 powi 1023" by (rule range)
  then obtain R where R: "round64 (D / E) = Finite R"
      "\<bar>R - D / E\<bar> \<le> \<bar>D / E\<bar> / 2 ^ 53 + 2 powi (- 1075)"
    using round64_error by blast
  have "(1 / 2 ^ 116 :: rat) \<le> 1 / 2 ^ 63" by simp
  then have R': "\<bar>R - D / E\<bar> \<le> \<bar>D / E\<bar> / 2 ^ 53 + 1 / 2 ^ 63"
    using R(2) tiny_bound by linarith
  have quot: "D / E = (D / e) / (E / e)" using e0 by simp
  have "\<bar>R - (l / e - 1)\<bar> \<le> 17 / 2 ^ 55 * (2 + \<bar>l / e - 1\<bar>)"
  proof (rule quotient_error [of "E / e" "L / e" "l / e" "D / e" R])
    show "\<bar>E / e - 1\<bar> \<le> 1 / 2 ^ 53 + 1 / 2 ^ 63" using E(3) e0 by simp
    show "\<bar>L / e - l / e\<bar> \<le> \<bar>l / e\<bar> / 2 ^ 53 + 1 / 2 ^ 63" by (rule L(3))
    show "\<bar>D / e - (L / e - E / e)\<bar> \<le> \<bar>L / e - E / e\<bar> / 2 ^ 53 + 1 / 2 ^ 63"
      using D(3) by (simp only: diff_divide_distrib)
    show "\<bar>R - D / e / (E / e)\<bar> \<le> \<bar>D / e / (E / e)\<bar> / 2 ^ 53 + 1 / 2 ^ 63"
      using R' by (simp only: quot)
  qed
  moreover have "spec_relative_change history = l / e - 1"
    using e0 by (simp add: spec_relative_change_def Let_def e_def [symmetric] l_def [symmetric]
        diff_divide_distrib)
  ultimately have bound: "\<bar>R - spec_relative_change history\<bar> \<le>
      17 / 2 ^ 55 * (2 + \<bar>spec_relative_change history\<bar>)"
    by simp
  have "fsub (Finite L) (Finite E) = Finite D" using D(1) by (simp add: fsub_def)
  moreover have "fdiv (Finite D) (Finite E) = Finite R" using R(1) E0 by simp
  ultimately have "viewerTrend history loc =
       (if 5044031582654956 / 2 ^ 56 < R then Growing loc
        else if R < - (5044031582654956 / 2 ^ 56) then Dropping loc
        else Steady loc)"
    using len(1) early late E(1) L(1)
    by (simp add: viewerTrend_def Let_def mid_def [symmetric] seven_percent minus_seven_percent)
  then show thesis using that bound by blast
qed

lemma trend_decided:
  fixes R r :: rat
  assumes "\<bar>R - r\<bar> \<le> 17 / 2 ^ 55 * (2 + \<bar>r\<bar>)"
  shows "7 / 100 + 1 / 10 ^ 15 < r \<Longrightarrow> 5044031582654956 / 2 ^ 56 < R"
    and "r < - (7 / 100) - 1 / 10 ^ 15 \<Longrightarrow> R < - (5044031582654956 / 2 ^ 56)"
    and "r \<le> 7 / 100 - 1 / 10 ^ 15 \<Longrightarrow> R \<le> 5044031582654956 / 2 ^ 56"
    and "- (7 / 100) + 1 / 10 ^ 15 \<le> r \<Longrightarrow> - (5044031582654956 / 2 ^ 56) \<le> R"
proof -
  define a where "a = \<bar>r\<bar>"
  define d where "d = \<bar>R - r\<bar>"
  have d: "R \<le> r + d" "r \<le> R + d" unfolding d_def by linarith+
  have a: "a = r \<or> a = - r" "0 \<le> a" unfolding a_def by linarith+
  have bound: "d \<le> 17 / 2 ^ 55 * (2 + a)" using assms by (simp only: a_def d_def)
  show "5044031582654956 / 2 ^ 56 < R" if "7 / 100 + 1 / 10 ^ 15 < r"
    using that d a bound by auto
  show "R < - (5044031582654956 / 2 ^ 56)" if "r < - (7 / 100) - 1 / 10 ^ 15"
    using that d a bound by auto
  show "R \<le> 5044031582654956 / 2 ^ 56" if "r \<le> 7 / 100 - 1 / 10 ^ 15"
    using that d a bound by auto
  show "- (5044031582654956 / 2 ^ 56) \<le> R" if "- (7 / 100) + 1 / 10 ^ 15 \<le> r"
    using that d a bound by auto
qed

text \<open>
  C8, as stated, fails: the history 166, 167, 167, 178, 178, 179 has the means 500/3 and
  535/3 and the relative change 7/100 exactly, which is not greater than 0.07, so that the
  trend of the claim is steady; \<open>viewerTrend\<close> rounds the means, their difference and the
  quotient and compares a number slightly above the \<open>float64\<close> nearest to 0.07: it
  answers growing. Likewise 33, 33, 34, 31, 31, 31 has the relative change -7/100 exactly
  and \<open>viewerTrend\<close> answers dropping.
\<close>

theorem trend_differs_at_threshold:
  "spec_relative_change (samples [166, 167, 167, 178, 178, 179]) = 7 / 100
   \<and> spec_trend (samples [166, 167, 167, 178, 178, 179]) (getLocalization ''en'') = ''steady''
   \<and> viewerTrend (samples [166, 167, 167, 178, 178, 179]) (getLocalization ''en'') = ''growing''
   \<and> spec_relative_change (samples [33, 33, 34, 31, 31, 31]) = - (7 / 100)
   \<and> spec_trend (samples [33, 33, 34, 31, 31, 31]) (getLocalization ''en'') = ''steady''
   \<and> viewerTrend (samples [33, 33, 34, 31, 31, 31]) (getLocalization ''en'') = ''dropping''"
proof -
  have "spec_relative_change (samples [166, 167, 167, 178, 178, 179]) = 7 / 100"
    by code_simp
  moreover have "spec_trend (samples [166, 167, 167, 178, 178, 179]) (getLocalization ''en'') = ''steady''"
    by code_simp
  moreover have "viewerTrend (samples [166, 167, 167, 178, 178, 179]) (getLocalization ''en'') = ''growing''"
    by code_simp
  moreover have "spec_relative_change (samples [33, 33, 34, 31, 31, 31]) = - (7 / 100)"
    by code_simp
  moreover have "spec_trend (samples [33, 33, 34, 31, 31, 31]) (getLocalization ''en'') = ''steady''"
    by code_simp
  moreover have "viewerTrend (samples [33, 33, 34, 31, 31, 31]) (getLocalization ''en'') = ''dropping''"
    by code_simp
  ultimately show ?thesis by (simp only: simp_thms)
qed

text \<open>
  C8, amended: \<open>viewerTrend\<close> reports no trend (the empty string) for a history of fewer
  than 4 points. Otherwise the early half is the first \<open>\<lfloor>n / 2\<rfloor>\<close> points and the late half
  the rest, and \<open>r\<close> is the exact relative change \<open>(lateMean - earlyMean) / earlyMean\<close> of
  the two arithmetic means. For a history of fewer than \<open>2 ^ 53\<close> points whose counts add
  up, in absolute value, to less than \<open>2 ^ 53\<close> and whose early mean is not zero, the
  result is the growing label if \<open>r > 0.07 + 1 / 10 ^ 15\<close>, the dropping label if
  \<open>r < -0.07 - 1 / 10 ^ 15\<close>, and the steady label if
  \<open>-0.07 + 1 / 10 ^ 15 \<le> r \<le> 0.07 - 1 / 10 ^ 15\<close>. When \<open>r\<close> lies within \<open>1 / 10 ^ 15\<close> of
  a threshold, the result is one of the two labels that meet there, as the rounded
  computation decides. So \<open>viewerTrend\<close> agrees with the classification of the claim,
  \<open>spec_trend\<close>, whenever \<open>r\<close> is farther than \<open>1 / 10 ^ 15\<close> from both thresholds.
\<close>

theorem viewerTrend_classifies_off_thresholds:
  "(length history < 4 \<longrightarrow> viewerTrend history loc = [])
   \<and> (4 \<le> length history \<and> length history < 2 ^ 53 \<and> (\<Sum>p\<leftarrow>history. \<bar>Count p\<bar>) < 2 ^ 53
        \<and> spec_mean (spec_early history) \<noteq> 0 \<longrightarrow>
      (7 / 100 + 1 / 10 ^ 15 < spec_relative_change history \<longrightarrow>
         viewerTrend history loc = Growing loc)
      \<and> (spec_relative_change history < - (7 / 100) - 1 / 10 ^ 15 \<longrightarrow>
         viewerTrend history loc = Dropping loc)
      \<and> (- (7 / 100) + 1 / 10 ^ 15 \<le> spec_relative_change history
           \<and> spec_relative_change history \<le> 7 / 100 - 1 / 10 ^ 15 \<longrightarrow>
         viewerTrend history loc = Steady loc)
      \<and> (7 / 100 - 1 / 10 ^ 15 < spec_relative_change history
           \<and> spec_relative_change history \<le> 7 / 100 + 1 / 10 ^ 15 \<longrightarrow>
         viewerTrend history loc = Steady loc \<or> viewerTrend history loc = Growing loc)
      \<and> (- (7 / 100) - 1 / 10 ^ 15 \<le> spec_relative_change history
           \<and> spec_relative_change history < - (7 / 100) + 1 / 10 ^ 15 \<longrightarrow>
         viewerTrend history loc = Steady loc \<or> viewerTrend history loc = Dropping loc)
      \<and> (1 / 10 ^ 15 < \<bar>spec_relative_change history - 7 / 100\<bar>
           \<and> 1 / 10 ^ 15 < \<bar>spec_relative_change history + 7 / 100\<bar> \<longrightarrow>
         viewerTrend history loc = spec_trend history loc))"
proof (intro conjI impI)
  show "viewerTrend history loc = []" if "length history < 4"
    using that by (simp add: viewerTrend_def)
next
  assume range: "4 \<le> length history \<and> length history < 2 ^ 53
      \<and> (\<Sum>p\<leftarrow>history. \<bar>Count p\<bar>) < 2 ^ 53 \<and> spec_mean (spec_early history) \<noteq> 0"
  define r where "r = spec_relative_change history"
  define c :: rat where "c = 5044031582654956 / 2 ^ 56"
  define eps :: rat where "eps = 1 / 10 ^ 15"
  define s :: rat where "s = 7 / 100"
  obtain R where trend: "viewerTrend history loc =
       (if c < R then Growing loc else if R < - c then Dropping loc else Steady loc)"
    and near: "\<bar>R - r\<bar> \<le> 17 / 2 ^ 55 * (2 + \<bar>r\<bar>)"
    using range unfolding r_def c_def by (elim conjE trend_rounded [of history loc]) blast
  have growing: "s + eps < r \<Longrightarrow> c < R"
    and dropping: "r < - s - eps \<Longrightarrow> R < - c"
    and not_growing: "r \<le> s - eps \<Longrightarrow> R \<le> c"
    and not_dropping: "- s + eps \<le> r \<Longrightarrow> - c \<le> R"
    using trend_decided [OF near] unfolding c_def eps_def s_def by blast+
  have order: "0 < eps" "0 < s" "eps < s" "0 < c" by (simp_all add: eps_def s_def c_def)
  have len: "\<not> length history < 4" using range by simp
  have spec: "spec_trend history loc =
      (if s < r then Growing loc else if r < - s then Dropping loc else Steady loc)"
    using len by (simp add: spec_trend_def Let_def r_def s_def)
  show "viewerTrend history loc = Growing loc" if "7 / 100 + 1 / 10 ^ 15 < spec_relative_change history"
    using that growing trend unfolding r_def [symmetric] s_def [symmetric] eps_def [symmetric]
    by simp
  show "viewerTrend history loc = Dropping loc"
    if "spec_relative_change history < - (7 / 100) - 1 / 10 ^ 15"
  proof -
    have r: "r < - s - eps" using that by (simp only: r_def s_def eps_def)
    then have "r \<le> s - eps" using order by linarith
    then show ?thesis using trend dropping [OF r] not_growing order by auto
  qed
  show "viewerTrend history loc = Steady loc"
    if "- (7 / 100) + 1 / 10 ^ 15 \<le> spec_relative_change history
        \<and> spec_relative_change history \<le> 7 / 100 - 1 / 10 ^ 15"
  proof -
    have "- s + eps \<le> r" "r \<le> s - eps" using that by (simp_all only: r_def s_def eps_def)
    then have "- c \<le> R" "R \<le> c" using not_dropping not_growing by blast+
    then show ?thesis using trend by auto
  qed
  show "viewerTrend history loc = Steady loc \<or> viewerTrend history loc = Growing loc"
    if "7 / 100 - 1 / 10 ^ 15 < spec_relative_change history
        \<and> spec_relative_change history \<le> 7 / 100 + 1 / 10 ^ 15"
  proof -
    have "s - eps < r" using that by (simp only: r_def s_def eps_def)
    then have "- s + eps \<le> r" using order by linarith
    then have "- c \<le> R" by (rule not_dropping)
    then show ?thesis using trend by auto
  qed
  show "viewerTrend history loc = Steady loc \<or> viewerTrend history loc = Dropping loc"
    if "- (7 / 100) - 1 / 10 ^ 15 \<le> spec_relative_change history
        \<and> spec_relative_change history < - (7 / 100) + 1 / 10 ^ 15"
  proof -
    have "r < - s + eps" using that by (simp only: r_def s_def eps_def)
    then have "r \<le> s - eps" using order by linarith
    then have "R \<le> c" by (rule not_growing)
    then show ?thesis using trend by auto
  qed
  show "viewerTrend history loc = spec_trend history loc"
    if "1 / 10 ^ 15 < \<bar>spec_relative_change history - 7 / 100\<bar>
        \<and> 1 / 10 ^ 15 < \<bar>spec_relative_change history + 7 / 100\<bar>"
  proof -
    have far: "eps < \<bar>r - s\<bar>" "eps < \<bar>r + s\<bar>" using that by (simp_all only: r_def s_def eps_def)
    consider "s + eps < r" | "r < - s - eps" | "- s + eps \<le> r" "r \<le> s - eps"
      using far by linarith
    then show ?thesis
    proof cases
      case 1
      then have "c < R" "s < r" using growing order by simp_all
      then show ?thesis using trend spec by simp
    next
      case 2
      then have "R < - c" "r \<le> s - eps" "r < - s" using dropping order by simp_all
      then have "R < - c" "\<not> c < R" "r < - s" "\<not> s < r" using not_growing order by simp_all
      then show ?thesis using trend spec by simp
    next
      case 3
      then have "- c \<le> R" "R \<le> c" "\<not> s < r" "\<not> r < - s"
        using not_dropping not_growing order by simp_all
      then show ?thesis using trend spec by auto
    qed
  qed
qed

theorem viewerTrend_classifies_off_thresholds_witness:
  "viewerTrend (samples [10, 10, 10, 10, 100, 100, 100, 100]) (getLocalization ''en'') = ''growing''
   \<and> viewerTrend (samples [100, 100, 50, 50]) (getLocalization ''en'') = ''dropping''
   \<and> viewerTrend (samples [10, 10, 11, 9]) (getLocalization ''en'') = ''steady''
   \<and> viewerTrend (samples [1, 2, 3]) (getLocalization ''en'') = []"
proof -
  have change: "spec_relative_change (samples [10, 10, 10, 10, 100, 100, 100, 100]) = 9"
      "spec_relative_change (samples [100, 100, 50, 50]) = - (1 / 2)"
      "spec_relative_change (samples [10, 10, 11, 9]) = 0"
    by (simp_all add: spec_relative_change_def spec_mean_def spec_early_def spec_late_def samples_def)
  have early: "spec_mean (spec_early (samples [10, 10, 10, 10, 100, 100, 100, 100])) = 10"
      "spec_mean (spec_early (samples [100, 100, 50, 50])) = 100"
      "spec_mean (spec_early (samples [10, 10, 11, 9])) = 10"
    by (simp_all add: spec_mean_def spec_early_def samples_def)
  have size: "length (samples [10, 10, 10, 10, 100, 100, 100, 100]) = 8"
      "length (samples [100, 100, 50, 50]) = 4" "length (samples [10, 10, 11, 9]) = 4"
      "length (samples [1, 2, 3]) = 3"
    by (simp_all add: samples_def)
  have total: "(\<Sum>p\<leftarrow>samples [10, 10, 10, 10, 100, 100, 100, 100]. \<bar>Count p\<bar>) = 440"
      "(\<Sum>p\<leftarrow>samples [100, 100, 50, 50]. \<bar>Count p\<bar>) = 300"
      "(\<Sum>p\<leftarrow>samples [10, 10, 11, 9]. \<bar>Count p\<bar>) = 40"
    by (simp_all add: samples_def)
  have labels: "Growing (getLocalization ''en'') = ''growing''"
      "Dropping (getLocalization ''en'') = ''dropping''"
      "Steady (getLocalization ''en'') = ''steady''"
    by (simp_all add: getLocalization_def)
  show ?thesis
    using viewerTrend_classifies_off_thresholds
        [of "samples [10, 10, 10, 10, 100, 100, 100, 100]" "getLocalization ''en''"]
      viewerTrend_classifies_off_thresholds [of "samples [100, 100, 50, 50]" "getLocalization ''en''"]
      viewerTrend_classifies_off_thresholds [of "samples [10, 10, 11, 9]" "getLocalization ''en''"]
      viewerTrend_classifies_off_thresholds [of "samples [1, 2, 3]" "getLocalization ''en''"]
    unfolding change early size total labels
    by simp
qed

text \<open>
  Two histories whose early mean is zero, where the relative change is not defined: the
  quotient by zero is an infinity or not a number, and the comparisons decide as they do
  on those values.
\<close>

lemma trend_early_mean_zero:
  "viewerTrend (samples [0, 0, 5, 5]) (getLocalization ''en'') = ''growing''"
  "viewerTrend (samples [0, 0, 0, 0]) (getLocalization ''en'') = ''steady''"
  by code_simp+

text \<open>
  C10: when the snapshot's viewer count is zero (or less), the stats line of the update
  message holds the uptime alone: the count, the average and the trend tag are all left
  out, whatever the history and its average are. When the count is positive, the fragment
  holds the average exactly when the average is positive and differs from the count.
\<close>

theorem update_message_viewer_fragment:
  "(StreamInfo.Viewers info \<le> 0 \<longrightarrow>
      formatUpdateMessage info avgViewers history loc =
        spec_update_lead info loc @
        Join (if Uptime info = [] then [] else [Uptime info]) middot)
   \<and> (0 < StreamInfo.Viewers info \<longrightarrow>
      formatUpdateMessage info avgViewers history loc =
        spec_update_lead info loc @
        Join ((if Uptime info = [] then [] else [Uptime info]) @
              [spec_viewer_fragment (StreamInfo.Viewers info)
                 (if 0 < avgViewers \<and> avgViewers \<noteq> StreamInfo.Viewers info
                  then Some avgViewers else None)
                 (viewerTrend history loc) loc]) middot)"
  by (simp add: formatUpdateMessage_def spec_update_lead_def spec_viewer_fragment_def Let_def)

theorem update_message_viewer_fragment_witness:
  "formatUpdateMessage (snapshot 0) 120 (samples [100, 100, 50, 50]) (getLocalization ''en'') =
     ''<b>chan</b>'' @ bullet @ ''LIVE'' @ bullet @ ''Chess'' @ newlines @
     ''<i>Speedrun</i>'' @ newlines @ ''1 h 2 m''
   \<and> formatUpdateMessage (snapshot 50) 75 (samples [100, 100, 50, 50]) (getLocalization ''en'') =
     ''<b>chan</b>'' @ bullet @ ''LIVE'' @ bullet @ ''Chess'' @ newlines @
     ''<i>Speedrun</i>'' @ newlines @ ''1 h 2 m'' @ middot @ ''50 viewers, 75 avg'' @ middot @
     ''dropping''
   \<and> formatUpdateMessage (snapshot 50) 50 (samples [1, 2, 3]) (getLocalization ''en'') =
     ''<b>chan</b>'' @ bullet @ ''LIVE'' @ bullet @ ''Chess'' @ newlines @
     ''<i>Speedrun</i>'' @ newlines @ ''1 h 2 m'' @ middot @ ''50 viewers''"
proof -
  have lead: "spec_update_lead (snapshot v) (getLocalization ''en'') =
      ''<b>chan</b>'' @ bullet @ ''LIVE'' @ bullet @ ''Chess'' @ newlines @
      ''<i>Speedrun</i>'' @ newlines" for v
    by (simp add: spec_update_lead_def snapshot_def getLocalization_def escapeHTML_def
          ReplaceAll_def)
  have fields: "StreamInfo.Viewers (snapshot v) = v" "Uptime (snapshot v) = ''1 h 2 m''" for v
    by (simp_all add: snapshot_def)
  have trend: "viewerTrend (samples [100, 100, 50, 50]) (getLocalization ''en'') = ''dropping''"
    "viewerTrend (samples [1, 2, 3]) (getLocalization ''en'') = []"
    by code_simp+
  have fv: "formatViewers 50 = ''50''" "formatViewers 75 = ''75''" by code_simp+
  show ?thesis
    using update_message_viewer_fragment [of "snapshot 0" 120 "samples [100, 100, 50, 50]" "getLocalization ''en''"]
      update_message_viewer_fragment [of "snapshot 50" 75 "samples [100, 100, 50, 50]" "getLocalization ''en''"]
      update_message_viewer_fragment [of "snapshot 50" 50 "samples [1, 2, 3]" "getLocalization ''en''"]
    by (simp add: lead fields trend fv spec_viewer_fragment_def)
       (simp add: getLocalization_def)
qed

text \<open>
  Deliveries: the outcomes of a call of the retry executor as a case distinction, and the
  two runs that the sample cycles lead to.
\<close>

lemma retry_outcome:
  fixes w :: "('r, 'v) world"
  obtains
    (diverges) "retryWithBackoff (attempt f) timeAfter w = None"
      "\<forall>k. fails f w k \<and> elapses w k"
  | (succeeds) n where "\<forall>k<n. fails f w k \<and> elapses w k" "\<not> fails f w n"
      "retryWithBackoff (attempt f) timeAfter w =
         Some (None, w\<lparr>invocations := invocations w + n + 1,
                        waits := waits w @ take n (delays @ replicate n 60),
                        captured := fst (f (replies w (invocations w + n)))\<rparr>)"
  | (cancelled) n where "\<forall>k<n. fails f w k \<and> elapses w k" "fails f w n" "\<not> elapses w n"
      "retryWithBackoff (attempt f) timeAfter w =
         Some (Some ContextCanceled,
               w\<lparr>invocations := invocations w + n + 1,
                  waits := waits w @ take (Suc n) (delays @ replicate (Suc n) 60),
                  captured := fst (f (replies w (invocations w + n)))\<rparr>)"
proof (cases "\<exists>k. \<not> fails f w k \<or> \<not> elapses w k")
  case False
  then have all: "\<forall>k. fails f w k \<and> elapses w k" by simp
  then have "retryWithBackoff (attempt f) timeAfter w = None" by (rule retry_diverges)
  then show thesis using all by (rule diverges)
next
  case True
  then obtain n where before: "\<forall>k<n. fails f w k \<and> elapses w k"
    and at: "\<not> fails f w n \<or> \<not> elapses w n"
    by (rule first_event)
  show thesis
  proof (cases "fails f w n")
    case False
    with before show thesis using retry_succeeds [OF before False] by (rule succeeds)
  next
    case fl: True
    then have nd: "\<not> elapses w n" using at by simp
    show thesis using before fl nd retry_cancelled [OF before fl nd] by (rule cancelled)
  qed
qed

lemma retry_result:
  fixes w :: "('r, 'v) world"
  assumes "retryWithBackoff (attempt f) timeAfter w = Some (r, w')"
  shows "r = None \<and> snd (f (replies w (invocations w' - 1))) = None
           \<and> captured w' = fst (f (replies w (invocations w' - 1)))
         \<or> r = Some ContextCanceled \<and> snd (f (replies w (invocations w' - 1))) \<noteq> None
           \<and> captured w' = fst (f (replies w (invocations w' - 1)))"
  using assms by (cases f w rule: retry_outcome) (auto simp: fails_def)

lemma retry_returns_iff:
  fixes w :: "('r, 'v) world"
  shows "(\<exists>y. retryWithBackoff (attempt f) timeAfter w = Some y) \<longleftrightarrow>
         (\<exists>k. \<not> fails f w k \<or> \<not> elapses w k)"
  by (cases f w rule: retry_outcome) auto

lemma retry_first_attempt:
  assumes "snd (f (rs 0)) = None"
  shows "retryWithBackoff (attempt f) timeAfter (world0 rs cs v) =
         Some (None, \<lparr>replies = rs, ctxDone = cs, invocations = 1, waits = [],
                      captured = fst (f (rs 0))\<rparr>)"
  using retry_succeeds [of 0 f "world0 rs cs v"] assms by (simp add: world0_def fails_def)

lemma retry_first_wait_cancelled:
  assumes "snd (f (rs 0)) \<noteq> None" and "cs 0"
  shows "retryWithBackoff (attempt f) timeAfter (world0 rs cs v) =
         Some (Some ContextCanceled,
               \<lparr>replies = rs, ctxDone = cs, invocations = 1, waits = [1],
                captured = fst (f (rs 0))\<rparr>)"
  using retry_cancelled [of 0 f "world0 rs cs v"] assms
  by (simp add: world0_def fails_def elapses_def delays_def)


section \<open>Properties of the poll loop\<close>

lemma deliveries_append: "deliveries (fx @ fx') = deliveries fx @ deliveries fx'"
  by (induction fx rule: deliveries.induct) simp_all

lemma sentinel_keeps_session:
  assumes "\<not> ctxDoneAtTop c" and "sentinel c" and "session st = Some s"
  shows "pollCycle cfg loc n c st =
         Some (Next st [RemoveFile ''simulate_end'', Sleep (CheckInterval cfg)])"
  using assms by (simp add: pollCycle_def)

text \<open>
  C1: the specification has a cycle in which the file \<open>simulate_end\<close> exists and a
  session exists end the session as an offline snapshot does. The loop body sets \<open>err\<close>
  in that case, so the iteration takes the error exit: the file is removed, nothing is
  delivered and the session stays. Evaluated on the sample session:
\<close>

theorem sentinel_does_not_end_session:
  "pollCycle config0 (getLocalization ''en'') 5 (cycle0\<lparr>sentinel := True\<rparr>) live =
   Some (Next live [RemoveFile ''simulate_end'', Sleep 60])"
  by (simp add: sentinel_keeps_session cycle0_def config0_def live_def)

lemma offline_poll:
  assumes "\<not> ctxDoneAtTop c" and "\<not> sentinel c" and "streamInfo c = Inr None"
    and "session st = Some s"
  shows "pollCycle cfg loc n c st =
         streamEnded cfg loc c s (if lastWasLive st then st\<lparr>lastWasLive := False\<rparr> else st)
           [GetStreamInfo (Twitch.Channel (Twitch cfg)) (ClientID (Twitch cfg))
              (ClientSecret (Twitch cfg)) (Language cfg)]"
  using assms by (simp add: pollCycle_def)

lemma streamEnded_cases:
  assumes "streamEnded cfg loc c s st fx = Some (Next st' fx')"
  obtains k ws r where "st' = st\<lparr>session := None\<rparr>"
    "deliveries fx' = deliveries fx @ [(k, r)]" "r = None \<or> r = Some ContextCanceled"
proof (cases "ChatID (Telegram cfg)")
  case None
  then show thesis using assms by (simp add: streamEnded_def Let_def)
next
  case (Some chatID)
  let ?f = "\<lambda>x. ((), editMessageCaption (BotToken (Telegram cfg)) chatID (MessageID s)
              (formatEndMessage (Twitch.Channel (Twitch cfg)) (durationStr c)
                 (calculateAverage (ViewerHistory s)) (getMaxViewers (ViewerHistory s))
                 (StreamSession.Game s) (StreamSession.Title s) (StreamSession.Tags s)
                 (case recentClips c of Inl err \<Rightarrow> [] | Inr clips \<Rightarrow> clips) loc)
              (''https://twitch.tv/'' @ Twitch.Channel (Twitch cfg)) (ButtonText loc) x)"
  let ?w = "world0 (telegramReplies c) (ctxDoneInWait c) ()"
  obtain r w where ret: "retryWithBackoff (attempt ?f) timeAfter ?w = Some (r, w)"
    using assms Some by (auto simp: streamEnded_def Let_def split: option.splits)
  have "r = None \<or> r = Some ContextCanceled" using retry_result [OF ret] by auto
  moreover have "st' = st\<lparr>session := None\<rparr>"
    "deliveries fx' = deliveries fx @ [(invocations w, r)]"
    using assms Some ret by (auto simp: streamEnded_def Let_def deliveries_append)
  ultimately show thesis using that by blast
qed


lemma streamEnded_returns_iff:
  assumes "ChatID (Telegram cfg) \<noteq> None"
  shows "(\<exists>st' fx'. streamEnded cfg loc c s st fx = Some (Next st' fx')) \<longleftrightarrow>
         (\<exists>k. (\<not> requestFails (telegramReplies c k) \<and> statusCode (telegramReplies c k) = 200)
              \<or> ctxDoneInWait c k)"
proof -
  obtain chatID where chat: "ChatID (Telegram cfg) = Some chatID" using assms by auto
  let ?f = "\<lambda>x. ((), editMessageCaption (BotToken (Telegram cfg)) chatID (MessageID s)
              (formatEndMessage (Twitch.Channel (Twitch cfg)) (durationStr c)
                 (calculateAverage (ViewerHistory s)) (getMaxViewers (ViewerHistory s))
                 (StreamSession.Game s) (StreamSession.Title s) (StreamSession.Tags s)
                 (case recentClips c of Inl err \<Rightarrow> [] | Inr clips \<Rightarrow> clips) loc)
              (''https://twitch.tv/'' @ Twitch.Channel (Twitch cfg)) (ButtonText loc) x)"
  let ?w = "world0 (telegramReplies c) (ctxDoneInWait c) ()"
  have "(\<exists>st' fx'. streamEnded cfg loc c s st fx = Some (Next st' fx')) \<longleftrightarrow>
        (\<exists>y. retryWithBackoff (attempt ?f) timeAfter ?w = Some y)"
    using chat by (auto simp: streamEnded_def Let_def split: option.splits)
  also have "\<dots> \<longleftrightarrow> (\<exists>k. \<not> fails ?f ?w k \<or> \<not> elapses ?w k)"
    by (rule retry_returns_iff)
  also have "\<dots> \<longleftrightarrow> (\<exists>k. (\<not> requestFails (telegramReplies c k)
                             \<and> statusCode (telegramReplies c k) = 200) \<or> ctxDoneInWait c k)"
    by (auto simp: fails_def elapses_def world0_def editMessageCaption_def)
  finally show ?thesis .
qed

text \<open>
  C5: a poll that finds the channel offline while a session exists ends without a session
  whenever it ends, and it makes exactly one delivery, whose outcome is success or
  cancellation. With a chat id configured it ends exactly when some attempt of the caption
  edit is accepted or the context is done during some wait.
\<close>

theorem offline_poll_discards_session:
  assumes "\<not> ctxDoneAtTop c" and "\<not> sentinel c" and "streamInfo c = Inr None"
    and "session st = Some s"
  shows
    "(\<forall>st' fx. pollCycle cfg loc n c st = Some (Next st' fx) \<longrightarrow>
        session st' = None \<and>
        (\<exists>k r. deliveries fx = [(k, r)] \<and> (r = None \<or> r = Some ContextCanceled)))
     \<and> (ChatID (Telegram cfg) \<noteq> None \<longrightarrow>
        ((\<exists>st' fx. pollCycle cfg loc n c st = Some (Next st' fx)) \<longleftrightarrow>
         (\<exists>k. (\<not> requestFails (telegramReplies c k) \<and> statusCode (telegramReplies c k) = 200)
              \<or> ctxDoneInWait c k)))"
proof (intro conjI allI impI)
  fix st' fx
  assume "pollCycle cfg loc n c st = Some (Next st' fx)"
  then have "streamEnded cfg loc c s (if lastWasLive st then st\<lparr>lastWasLive := False\<rparr> else st)
           [GetStreamInfo (Twitch.Channel (Twitch cfg)) (ClientID (Twitch cfg))
              (ClientSecret (Twitch cfg)) (Language cfg)] = Some (Next st' fx)"
    using offline_poll [OF assms] by simp
  then show "session st' = None"
    and "\<exists>k r. deliveries fx = [(k, r)] \<and> (r = None \<or> r = Some ContextCanceled)"
    by (auto elim!: streamEnded_cases)
next
  assume "ChatID (Telegram cfg) \<noteq> None"
  then show "(\<exists>st' fx. pollCycle cfg loc n c st = Some (Next st' fx)) \<longleftrightarrow>
         (\<exists>k. (\<not> requestFails (telegramReplies c k) \<and> statusCode (telegramReplies c k) = 200)
              \<or> ctxDoneInWait c k)"
    using offline_poll [OF assms] streamEnded_returns_iff by simp
qed

lemma editMessageCaption_accepted [simp]:
  "editMessageCaption token chatID messageID caption buttonURL buttonText (accepted result) = None"
  by (simp add: editMessageCaption_def accepted_def)

lemma editMessageCaption_refused [simp]:
  "editMessageCaption token chatID messageID caption buttonURL buttonText refused =
   Some RequestFailed"
  by (simp add: editMessageCaption_def refused_def)

theorem offline_poll_discards_session_witness:
  "sessionOf (pollCycle config0 (getLocalization ''en'') 5 cycle0 live) = None
   \<and> deliveriesOf (pollCycle config0 (getLocalization ''en'') 5 cycle0 live) = [(1, None)]
   \<and> sessionOf (pollCycle config0 (getLocalization ''en'') 5 offlineCancelled live) = None
   \<and> deliveriesOf (pollCycle config0 (getLocalization ''en'') 5 offlineCancelled live) =
       [(1, Some ContextCanceled)]"
proof -
  let ?loc = "getLocalization ''en''"
  let ?c = offlineCancelled
  have pre: "\<not> ctxDoneAtTop cycle0" "\<not> sentinel cycle0" "streamInfo cycle0 = Inr None"
    "\<not> ctxDoneAtTop ?c" "\<not> sentinel ?c" "streamInfo ?c = Inr None"
    "session live = Some session0" "ChatID (Telegram config0) \<noteq> None"
    by (simp_all add: cycle0_def config0_def offlineCancelled_def live_def)
  have ex: "\<exists>k. (\<not> requestFails (telegramReplies cycle0 k) \<and> statusCode (telegramReplies cycle0 k) = 200)
              \<or> ctxDoneInWait cycle0 k"
    "\<exists>k. (\<not> requestFails (telegramReplies ?c k) \<and> statusCode (telegramReplies ?c k) = 200)
              \<or> ctxDoneInWait ?c k"
    by (simp_all add: cycle0_def accepted_def offlineCancelled_def)
  obtain st1 fx1 where r1: "pollCycle config0 ?loc 5 cycle0 live = Some (Next st1 fx1)"
    using offline_poll_discards_session [OF pre(1,2,3,7), of config0 ?loc 5] pre(8) ex(1) by blast
  obtain st2 fx2 where r2: "pollCycle config0 ?loc 5 ?c live = Some (Next st2 fx2)"
    using offline_poll_discards_session [OF pre(4,5,6,7), of config0 ?loc 5] pre(8) ex(2) by blast
  have s1: "session st1 = None" and s2: "session st2 = None"
    using offline_poll_discards_session [OF pre(1,2,3,7), of config0 ?loc 5] r1
      offline_poll_discards_session [OF pre(4,5,6,7), of config0 ?loc 5] r2 by blast+
  have d1: "deliveries fx1 = [(1, None)]"
    using r1 by (simp add: offline_poll [OF pre(1,2,3,7)] streamEnded_def Let_def config0_def)
       (auto simp: cycle0_def retry_first_attempt)
  have d2: "deliveries fx2 = [(1, Some ContextCanceled)]"
    using r2 by (simp add: offline_poll [OF pre(4,5,6,7)] streamEnded_def Let_def config0_def)
       (auto simp: cycle0_def offlineCancelled_def retry_first_wait_cancelled)
  show ?thesis using r1 r2 s1 s2 d1 d2 by (simp add: sessionOf_def deliveriesOf_def)
qed

lemma live_poll:
  assumes "\<not> ctxDoneAtTop c" and "\<not> sentinel c" and "streamInfo c = Inr (Some info)"
    and "session st = Some s"
  shows "pollCycle cfg loc n c st =
         streamOnAir cfg loc n c info s (if lastWasLive st then st else st\<lparr>lastWasLive := True\<rparr>)
           [GetStreamInfo (Twitch.Channel (Twitch cfg)) (ClientID (Twitch cfg))
              (ClientSecret (Twitch cfg)) (Language cfg)]"
  using assms by (simp add: pollCycle_def)

lemma streamOnAir_idle:
  assumes "polled = s\<lparr>ViewerHistory := ViewerHistory s @
                         [\<lparr>Timestamp = clock c 0, Count = StreamInfo.Viewers info\<rparr>],
                       UpdateCounter := int64 (UpdateCounter s + 1)\<rparr>"
    and "\<not> (n \<le> UpdateCounter polled
            \<or> (StreamInfo.Game info \<noteq> StreamSession.Game s \<and> StreamSession.Game s \<noteq> []))"
  shows "streamOnAir cfg loc n c info s st fx =
         Some (Next (st\<lparr>session := Some polled\<rparr>) (fx @ [Sleep (CheckInterval cfg)]))"
proof -
  have "\<not> (n \<le> int64 (UpdateCounter s + 1)
           \<or> (StreamInfo.Game info \<noteq> StreamSession.Game s \<and> StreamSession.Game s \<noteq> []))"
    using assms by simp
  then have c1: "(n \<le> int64 (UpdateCounter s + 1)) = False"
    and c2: "(StreamInfo.Game info \<noteq> StreamSession.Game s \<and> StreamSession.Game s \<noteq> []) = False"
    by auto
  show ?thesis by (simp add: streamOnAir_def Let_def assms(1) c1 c2)
qed

lemma streamOnAir_refresh:
  assumes "polled = s\<lparr>ViewerHistory := ViewerHistory s @
                         [\<lparr>Timestamp = clock c 0, Count = StreamInfo.Viewers info\<rparr>],
                       UpdateCounter := int64 (UpdateCounter s + 1)\<rparr>"
    and "n \<le> UpdateCounter polled
         \<or> (StreamInfo.Game info \<noteq> StreamSession.Game s \<and> StreamSession.Game s \<noteq> [])"
    and "ChatID (Telegram cfg) = Some chatID"
    and "message = formatUpdateMessageWithClips info (calculateAverage (ViewerHistory polled))
                     (ViewerHistory polled)
                     (case recentClips c of Inl err \<Rightarrow> [] | Inr clips \<Rightarrow> clips) loc"
    and "thumbnailURL = getThumbnailURL (Twitch.Channel (Twitch cfg)) (clock c 1)"
  shows "streamOnAir cfg loc n c info s st fx =
         (case retryWithBackoff
                 (attempt (\<lambda>x. ((), editPhotoMessage (BotToken (Telegram cfg)) chatID
                    (MessageID s) thumbnailURL message (StreamInfo.URL info) (ButtonText loc) x)))
                 timeAfter (world0 (telegramReplies c) (ctxDoneInWait c) ()) of
            None \<Rightarrow> None
          | Some (r, w) \<Rightarrow>
              Some (Next (st\<lparr>session := Some (polled\<lparr>UpdateCounter := 0,
                                  StreamSession.Game := StreamInfo.Game info,
                                  StreamSession.Title := StreamInfo.Title info,
                                  StreamSession.Tags := StreamInfo.Tags info\<rparr>)\<rparr>)
                      (fx @ [GetRecentClips (BroadcasterID s) (ClientID (Twitch cfg))
                               (ClientSecret (Twitch cfg)) (StartTime s),
                             Deliver (EditPhoto (BotToken (Telegram cfg)) chatID (MessageID s)
                                        thumbnailURL message (StreamInfo.URL info) (ButtonText loc))
                               (invocations w) (waits w) r,
                             Sleep (CheckInterval cfg)])))"
proof -
  have c: "(n \<le> int64 (UpdateCounter s + 1)
           \<or> (StreamInfo.Game info \<noteq> StreamSession.Game s \<and> StreamSession.Game s \<noteq> [])) = True"
    using assms(1,2) by simp
  show ?thesis
    by (simp add: streamOnAir_def Let_def assms(1,3,4,5) c split: option.split)
qed

lemma streamOnAir_panics:
  assumes "n \<le> int64 (UpdateCounter s + 1)
         \<or> (StreamInfo.Game info \<noteq> StreamSession.Game s \<and> StreamSession.Game s \<noteq> [])"
    and "ChatID (Telegram cfg) = None"
  shows "streamOnAir cfg loc n c info s st fx = Some Panic"
proof -
  have c: "(n \<le> int64 (UpdateCounter s + 1)
           \<or> (StreamInfo.Game info \<noteq> StreamSession.Game s \<and> StreamSession.Game s \<noteq> [])) = True"
    using assms(1) by simp
  show ?thesis by (simp add: streamOnAir_def Let_def assms(2) c)
qed

text \<open>
  C7: a poll that finds the channel on air while a session exists appends a data point and
  increments the counter. It refreshes exactly when the incremented counter has reached the
  threshold \<open>n\<close> or the snapshot's game differs from a cached game that is not empty.
  Without a refresh the iteration asks the platform and sleeps, and nothing else. With a
  refresh it fetches the clips and delivers the update message composed from the average
  over the history, and whenever it ends the counter is zero and the cache holds the
  snapshot's game, title and tags; it ends exactly when some attempt of the edit is
  accepted or the context is done during some wait.
\<close>

theorem live_poll_refreshes_when_due:
  assumes "\<not> ctxDoneAtTop c" and "\<not> sentinel c" and "streamInfo c = Inr (Some info)"
    and "session st = Some s"
    and "polled = s\<lparr>ViewerHistory := ViewerHistory s @
                         [\<lparr>Timestamp = clock c 0, Count = StreamInfo.Viewers info\<rparr>],
                       UpdateCounter := int64 (UpdateCounter s + 1)\<rparr>"
    and "due \<longleftrightarrow> n \<le> UpdateCounter polled
             \<or> (StreamInfo.Game info \<noteq> StreamSession.Game s \<and> StreamSession.Game s \<noteq> [])"
    and "asked = GetStreamInfo (Twitch.Channel (Twitch cfg)) (ClientID (Twitch cfg))
                   (ClientSecret (Twitch cfg)) (Language cfg)"
  shows
    "(\<not> due \<longrightarrow>
        (\<exists>st'. pollCycle cfg loc n c st = Some (Next st' [asked, Sleep (CheckInterval cfg)])
              \<and> session st' = Some polled))
     \<and> (due \<longrightarrow>
        (\<forall>st' fx. pollCycle cfg loc n c st = Some (Next st' fx) \<longrightarrow>
           session st' = Some (polled\<lparr>UpdateCounter := 0,
                                  StreamSession.Game := StreamInfo.Game info,
                                  StreamSession.Title := StreamInfo.Title info,
                                  StreamSession.Tags := StreamInfo.Tags info\<rparr>)
           \<and> (\<exists>chatID k ws r.
                 ChatID (Telegram cfg) = Some chatID
                 \<and> (r = None \<or> r = Some ContextCanceled)
                 \<and> fx = [asked,
                         GetRecentClips (BroadcasterID s) (ClientID (Twitch cfg))
                           (ClientSecret (Twitch cfg)) (StartTime s),
                         Deliver (EditPhoto (BotToken (Telegram cfg)) chatID (MessageID s)
                                    (getThumbnailURL (Twitch.Channel (Twitch cfg)) (clock c 1))
                                    (formatUpdateMessageWithClips info
                                       (calculateAverage (ViewerHistory polled))
                                       (ViewerHistory polled)
                                       (case recentClips c of Inl err \<Rightarrow> [] | Inr clips \<Rightarrow> clips)
                                       loc)
                                    (StreamInfo.URL info) (ButtonText loc)) k ws r,
                         Sleep (CheckInterval cfg)])))
     \<and> (due \<and> ChatID (Telegram cfg) \<noteq> None \<longrightarrow>
        ((\<exists>st' fx. pollCycle cfg loc n c st = Some (Next st' fx)) \<longleftrightarrow>
         (\<exists>k. (\<not> imageFails (telegramReplies c k) \<and> \<not> requestFails (telegramReplies c k)
               \<and> statusCode (telegramReplies c k) = 200)
              \<or> ctxDoneInWait c k)))"
proof (intro conjI impI allI)
  let ?st = "if lastWasLive st then st else st\<lparr>lastWasLive := True\<rparr>"
  have poll: "pollCycle cfg loc n c st = streamOnAir cfg loc n c info s ?st [asked]"
    using live_poll [OF assms(1-4)] assms(7) by simp
  {
    assume "\<not> due"
    then have "pollCycle cfg loc n c st =
               Some (Next (?st\<lparr>session := Some polled\<rparr>) ([asked] @ [Sleep (CheckInterval cfg)]))"
      using poll streamOnAir_idle [OF assms(5)] assms(6) by simp
    then show "\<exists>st'. pollCycle cfg loc n c st = Some (Next st' [asked, Sleep (CheckInterval cfg)])
              \<and> session st' = Some polled"
      by simp
  }
  {
    fix st' fx
    assume due: due and ret: "pollCycle cfg loc n c st = Some (Next st' fx)"
    have "ChatID (Telegram cfg) \<noteq> None"
    proof
      assume "ChatID (Telegram cfg) = None"
      then have "streamOnAir cfg loc n c info s ?st [asked] = Some Panic"
        using assms(5,6) due by (intro streamOnAir_panics) simp_all
      then show False using ret poll by simp
    qed
    then obtain chatID where chat: "ChatID (Telegram cfg) = Some chatID" by auto
    let ?message = "formatUpdateMessageWithClips info (calculateAverage (ViewerHistory polled))
                     (ViewerHistory polled)
                     (case recentClips c of Inl err \<Rightarrow> [] | Inr clips \<Rightarrow> clips) loc"
    let ?thumb = "getThumbnailURL (Twitch.Channel (Twitch cfg)) (clock c 1)"
    let ?f = "\<lambda>x. ((), editPhotoMessage (BotToken (Telegram cfg)) chatID
                    (MessageID s) ?thumb ?message (StreamInfo.URL info) (ButtonText loc) x)"
    let ?w = "world0 (telegramReplies c) (ctxDoneInWait c) ()"
    have on: "streamOnAir cfg loc n c info s ?st [asked] =
       (case retryWithBackoff (attempt ?f) timeAfter ?w of
            None \<Rightarrow> None
          | Some (r, w) \<Rightarrow>
              Some (Next (?st\<lparr>session := Some (polled\<lparr>UpdateCounter := 0,
                                  StreamSession.Game := StreamInfo.Game info,
                                  StreamSession.Title := StreamInfo.Title info,
                                  StreamSession.Tags := StreamInfo.Tags info\<rparr>)\<rparr>)
                      ([asked] @ [GetRecentClips (BroadcasterID s) (ClientID (Twitch cfg))
                               (ClientSecret (Twitch cfg)) (StartTime s),
                             Deliver (EditPhoto (BotToken (Telegram cfg)) chatID (MessageID s)
                                        ?thumb ?message (StreamInfo.URL info) (ButtonText loc))
                               (invocations w) (waits w) r,
                             Sleep (CheckInterval cfg)])))"
      using assms(6) due by (intro streamOnAir_refresh [OF assms(5) _ chat]) simp_all
    obtain r w where rw: "retryWithBackoff (attempt ?f) timeAfter ?w = Some (r, w)"
      using ret poll on by (auto split: option.splits)
    have r: "r = None \<or> r = Some ContextCanceled" using retry_result [OF rw] by auto
    show "session st' = Some (polled\<lparr>UpdateCounter := 0,
                                  StreamSession.Game := StreamInfo.Game info,
                                  StreamSession.Title := StreamInfo.Title info,
                                  StreamSession.Tags := StreamInfo.Tags info\<rparr>)"
      using ret poll on rw by auto
    show "\<exists>chatID k ws r.
                 ChatID (Telegram cfg) = Some chatID
                 \<and> (r = None \<or> r = Some ContextCanceled)
                 \<and> fx = [asked,
                         GetRecentClips (BroadcasterID s) (ClientID (Twitch cfg))
                           (ClientSecret (Twitch cfg)) (StartTime s),
                         Deliver (EditPhoto (BotToken (Telegram cfg)) chatID (MessageID s)
                                    (getThumbnailURL (Twitch.Channel (Twitch cfg)) (clock c 1))
                                    (formatUpdateMessageWithClips info
                                       (calculateAverage (ViewerHistory polled))
                                       (ViewerHistory polled)
                                       (case recentClips c of Inl err \<Rightarrow> [] | Inr clips \<Rightarrow> clips)
                                       loc)
                                    (StreamInfo.URL info) (ButtonText loc)) k ws r,
                         Sleep (CheckInterval cfg)]"
      using ret poll on rw chat r by auto
  }
  {
    assume a: "due \<and> ChatID (Telegram cfg) \<noteq> None"
    then obtain chatID where chat: "ChatID (Telegram cfg) = Some chatID" by auto
    let ?message = "formatUpdateMessageWithClips info (calculateAverage (ViewerHistory polled))
                     (ViewerHistory polled)
                     (case recentClips c of Inl err \<Rightarrow> [] | Inr clips \<Rightarrow> clips) loc"
    let ?thumb = "getThumbnailURL (Twitch.Channel (Twitch cfg)) (clock c 1)"
    let ?f = "\<lambda>x. ((), editPhotoMessage (BotToken (Telegram cfg)) chatID
                    (MessageID s) ?thumb ?message (StreamInfo.URL info) (ButtonText loc) x)"
    let ?w = "world0 (telegramReplies c) (ctxDoneInWait c) ()"
    have on: "streamOnAir cfg loc n c info s ?st [asked] =
       (case retryWithBackoff (attempt ?f) timeAfter ?w of
            None \<Rightarrow> None
          | Some (r, w) \<Rightarrow>
              Some (Next (?st\<lparr>session := Some (polled\<lparr>UpdateCounter := 0,
                                  StreamSession.Game := StreamInfo.Game info,
                                  StreamSession.Title := StreamInfo.Title info,
                                  StreamSession.Tags := StreamInfo.Tags info\<rparr>)\<rparr>)
                      ([asked] @ [GetRecentClips (BroadcasterID s) (ClientID (Twitch cfg))
                               (ClientSecret (Twitch cfg)) (StartTime s),
                             Deliver (EditPhoto (BotToken (Telegram cfg)) chatID (MessageID s)
                                        ?thumb ?message (StreamInfo.URL info) (ButtonText loc))
                               (invocations w) (waits w) r,
                             Sleep (CheckInterval cfg)])))"
      using assms(6) a by (intro streamOnAir_refresh [OF assms(5) _ chat]) simp_all
    have "(\<exists>st' fx. pollCycle cfg loc n c st = Some (Next st' fx)) \<longleftrightarrow>
          (\<exists>y. retryWithBackoff (attempt ?f) timeAfter ?w = Some y)"
      using poll on by (auto split: option.splits)
    also have "\<dots> \<longleftrightarrow> (\<exists>k. \<not> fails ?f ?w k \<or> \<not> elapses ?w k)"
      by (rule retry_returns_iff)
    also have "\<dots> \<longleftrightarrow> (\<exists>k. (\<not> imageFails (telegramReplies c k) \<and> \<not> requestFails (telegramReplies c k)
               \<and> statusCode (telegramReplies c k) = 200) \<or> ctxDoneInWait c k)"
      by (auto simp: fails_def elapses_def world0_def editPhotoMessage_def)
    finally show "(\<exists>st' fx. pollCycle cfg loc n c st = Some (Next st' fx)) \<longleftrightarrow>
         (\<exists>k. (\<not> imageFails (telegramReplies c k) \<and> \<not> requestFails (telegramReplies c k)
               \<and> statusCode (telegramReplies c k) = 200)
              \<or> ctxDoneInWait c k)" .
  }
qed


lemma int64_small: "- (2 ^ 63) \<le> k \<Longrightarrow> k < 2 ^ 63 \<Longrightarrow> int64 k = k"
  by (simp add: int64_def)

lemma int64_range: "- (2 ^ 63) \<le> int64 k \<and> int64 k < 2 ^ 63"
  by (simp add: int64_def)

theorem live_poll_refreshes_when_due_witness:
  "sessionOf (pollCycle config0 (getLocalization ''en'') 5 onAir live) =
     Some (session0\<lparr>ViewerHistory := samples [50, 50], UpdateCounter := 1\<rparr>)
   \<and> deliveriesOf (pollCycle config0 (getLocalization ''en'') 5 onAir live) = []
   \<and> sessionOf (pollCycle config0 (getLocalization ''en'') 1 onAir live) =
     Some (session0\<lparr>ViewerHistory := samples [50, 50], UpdateCounter := 0\<rparr>)
   \<and> length (deliveriesOf (pollCycle config0 (getLocalization ''en'') 1 onAir live)) = 1"
proof -
  let ?loc = "getLocalization ''en''"
  let ?c = onAir
  let ?polled = "session0\<lparr>ViewerHistory := samples [50, 50], UpdateCounter := 1\<rparr>"
  let ?asked = "GetStreamInfo (Twitch.Channel (Twitch config0)) (ClientID (Twitch config0))
                   (ClientSecret (Twitch config0)) (Language config0)"
  have pre: "\<not> ctxDoneAtTop ?c" "\<not> sentinel ?c" "streamInfo ?c = Inr (Some (snapshot 50))"
    "session live = Some session0"
    by (simp_all add: cycle0_def onAir_def live_def)
  have polled: "?polled = session0\<lparr>ViewerHistory := ViewerHistory session0 @
                         [\<lparr>Timestamp = clock ?c 0, Count = StreamInfo.Viewers (snapshot 50)\<rparr>],
                       UpdateCounter := int64 (UpdateCounter session0 + 1)\<rparr>"
    by (simp add: session0_def samples_def cycle0_def onAir_def snapshot_def int64_small)
  have game: "StreamInfo.Game (snapshot 50) = StreamSession.Game session0"
    by (simp add: snapshot_def session0_def)
  have idle: "False \<longleftrightarrow> 5 \<le> UpdateCounter ?polled
             \<or> (StreamInfo.Game (snapshot 50) \<noteq> StreamSession.Game session0
                \<and> StreamSession.Game session0 \<noteq> [])"
    using game by simp
  have due: "True \<longleftrightarrow> 1 \<le> UpdateCounter ?polled
             \<or> (StreamInfo.Game (snapshot 50) \<noteq> StreamSession.Game session0
                \<and> StreamSession.Game session0 \<noteq> [])"
    by simp
  note quiet = live_poll_refreshes_when_due [OF pre polled idle, of ?asked config0 ?loc]
  note fresh = live_poll_refreshes_when_due [OF pre polled due, of ?asked config0 ?loc]
  obtain st1 where r1: "pollCycle config0 ?loc 5 ?c live =
      Some (Next st1 [?asked, Sleep (CheckInterval config0)])" "session st1 = Some ?polled"
    using quiet by auto
  have "ChatID (Telegram config0) \<noteq> None" by (simp add: config0_def)
  moreover have "\<exists>k. (\<not> imageFails (telegramReplies ?c k) \<and> \<not> requestFails (telegramReplies ?c k)
               \<and> statusCode (telegramReplies ?c k) = 200) \<or> ctxDoneInWait ?c k"
    by (simp add: cycle0_def onAir_def accepted_def)
  ultimately obtain st2 fx2 where r2: "pollCycle config0 ?loc 1 ?c live = Some (Next st2 fx2)"
    using fresh by blast
  then have s2: "session st2 = Some (?polled\<lparr>UpdateCounter := 0,
                    StreamSession.Game := StreamInfo.Game (snapshot 50),
                    StreamSession.Title := StreamInfo.Title (snapshot 50),
                    StreamSession.Tags := StreamInfo.Tags (snapshot 50)\<rparr>)"
    and "\<exists>k r. deliveries fx2 = [(k, r)]"
    using fresh by auto
  then show ?thesis
    using r1 r2 by (auto simp: sessionOf_def deliveriesOf_def session0_def snapshot_def)
qed

lemma sendPhotoMessage_accepted [simp]:
  "sendPhotoMessage token chatID threadID photoURL caption buttonURL buttonText (accepted result) =
   (case result of None \<Rightarrow> 0 | Some messageID \<Rightarrow> messageID, None)"
  by (simp add: sendPhotoMessage_def accepted_def)

lemma sendPhotoMessage_fails:
  "snd (sendPhotoMessage token chatID threadID photoURL caption buttonURL buttonText x) \<noteq> None
   \<Longrightarrow> fst (sendPhotoMessage token chatID threadID photoURL caption buttonURL buttonText x) = 0"
  by (auto simp: sendPhotoMessage_def split: telegram_body.splits if_splits)

lemma start_poll:
  assumes "\<not> ctxDoneAtTop c" and "\<not> sentinel c" and "streamInfo c = Inr (Some info)"
    and "session st = None"
  shows "pollCycle cfg loc n c st =
         streamStarted cfg loc c info (if lastWasLive st then st else st\<lparr>lastWasLive := True\<rparr>)
           [GetStreamInfo (Twitch.Channel (Twitch cfg)) (ClientID (Twitch cfg))
              (ClientSecret (Twitch cfg)) (Language cfg)]"
  using assms by (simp add: pollCycle_def)

text \<open>
  What a start makes of the session: a session that exists after the iteration was created
  from a reply with a message id other than zero and is seeded from the snapshot; no session
  exists afterwards when the broadcaster lookup failed, when the delivery was cancelled, or
  when the delivery succeeded on a reply in which no message id was found.
\<close>

lemma streamStarted_session:
  assumes "streamStarted cfg loc c info st fx = Some (Next st' fx')" and "session st = None"
  shows "(\<forall>s'. session st' = Some s' \<longrightarrow>
            ViewerHistory s' = [\<lparr>Timestamp = clock c 1, Count = StreamInfo.Viewers info\<rparr>]
            \<and> UpdateCounter s' = 0
            \<and> StreamSession.Game s' = StreamInfo.Game info
            \<and> StreamSession.Title s' = StreamInfo.Title info
            \<and> StreamSession.Tags s' = StreamInfo.Tags info
            \<and> MessageID s' \<noteq> 0)
         \<and> (session st' = None \<longrightarrow>
            (\<exists>err. broadcaster c = Inl err)
            \<or> (\<exists>k. deliveries fx' = deliveries fx @ [(k, Some ContextCanceled)])
            \<or> (\<exists>k. deliveries fx' = deliveries fx @ [(Suc k, None)]
                  \<and> (\<exists>ok. body (telegramReplies c k) = Reply ok None
                          \<or> body (telegramReplies c k) = Reply ok (Some 0))))"
proof (cases "broadcaster c")
  case (Inl err)
  then show ?thesis using assms by (auto simp: streamStarted_def Let_def)
next
  case (Inr broadcasterID)
  show ?thesis
  proof (cases "ChatID (Telegram cfg)")
    case None
    then show ?thesis using assms Inr by (simp add: streamStarted_def Let_def)
  next
    case (Some chatID)
    let ?f = "sendPhotoMessage (BotToken (Telegram cfg)) chatID (ThreadID (Telegram cfg))
                (getThumbnailURL (Twitch.Channel (Twitch cfg)) (clock c 0))
                (formatStartMessage info loc) (StreamInfo.URL info) (ButtonText loc)"
    let ?w = "world0 (telegramReplies c) (ctxDoneInWait c) (0::int)"
    obtain r w where ret: "retryWithBackoff (attempt ?f) timeAfter ?w = Some (r, w)"
      using assms Inr Some by (auto simp: streamStarted_def Let_def split: option.splits)
    have st': "st' = st\<lparr>session :=
        (if captured w \<noteq> 0 then
           Some \<lparr>MessageID = captured w, StartTime = clock c 2, Game = StreamInfo.Game info,
                 Title = StreamInfo.Title info, Tags = StreamInfo.Tags info,
                 BroadcasterID = broadcasterID,
                 ViewerHistory = [\<lparr>Timestamp = clock c 1, Count = StreamInfo.Viewers info\<rparr>],
                 UpdateCounter = 0\<rparr>
         else session st)\<rparr>"
      and fx': "deliveries fx' = deliveries fx @ [(invocations w, r)]"
      using assms Inr Some ret by (auto simp: streamStarted_def Let_def deliveries_append)
    have seeded: "\<forall>s'. session st' = Some s' \<longrightarrow>
            ViewerHistory s' = [\<lparr>Timestamp = clock c 1, Count = StreamInfo.Viewers info\<rparr>]
            \<and> UpdateCounter s' = 0
            \<and> StreamSession.Game s' = StreamInfo.Game info
            \<and> StreamSession.Title s' = StreamInfo.Title info
            \<and> StreamSession.Tags s' = StreamInfo.Tags info
            \<and> MessageID s' \<noteq> 0"
      using st' assms(2) by (auto split: if_splits)
    have none: "session st' = None \<longrightarrow>
            (\<exists>k. deliveries fx' = deliveries fx @ [(k, Some ContextCanceled)])
            \<or> (\<exists>k. deliveries fx' = deliveries fx @ [(Suc k, None)]
                  \<and> (\<exists>ok. body (telegramReplies c k) = Reply ok None
                          \<or> body (telegramReplies c k) = Reply ok (Some 0)))"
    proof
      assume "session st' = None"
      then have zero: "captured w = 0" using st' by (auto split: if_splits)
      show "(\<exists>k. deliveries fx' = deliveries fx @ [(k, Some ContextCanceled)])
            \<or> (\<exists>k. deliveries fx' = deliveries fx @ [(Suc k, None)]
                  \<and> (\<exists>ok. body (telegramReplies c k) = Reply ok None
                          \<or> body (telegramReplies c k) = Reply ok (Some 0)))"
      proof (cases ?f ?w rule: retry_outcome)
        case diverges
        then show ?thesis using ret by simp
      next
        case (cancelled n)
        then show ?thesis using ret fx' by auto
      next
        case (succeeds n)
        then have w: "invocations w = Suc n" "r = None"
          "captured w = fst (?f (telegramReplies c n))"
          using ret by (auto simp: world0_def)
        have ok: "snd (?f (telegramReplies c n)) = None"
          using succeeds(2) by (simp add: fails_def world0_def)
        have "\<exists>ok. body (telegramReplies c n) = Reply ok None
                 \<or> body (telegramReplies c n) = Reply ok (Some 0)"
          using ok w(3) zero
          by (auto simp: sendPhotoMessage_def split: telegram_body.splits if_splits option.splits)
        then show ?thesis using w fx' by auto
      qed
    qed
    show ?thesis using seeded none by blast
  qed
qed

text \<open>
  C4: the specification has cancellation as the only way in which the delivery of the start
  message yields no handle. \<open>sendPhotoMessage\<close> returns message id 0 without an error
  when the reply is accepted but no message id is found in it; the delivery then succeeds
  at the first attempt and no session is created. Evaluated on the sample cycle:
\<close>

theorem start_delivered_without_handle:
  "sessionOf (pollCycle config0 (getLocalization ''en'') 5 onAirNoId idle) = None
   \<and> deliveriesOf (pollCycle config0 (getLocalization ''en'') 5 onAirNoId idle) = [(1, None)]"
proof -
  let ?c = onAirNoId
  have pre: "\<not> ctxDoneAtTop ?c" "\<not> sentinel ?c" "streamInfo ?c = Inr (Some (snapshot 50))"
    "session idle = None"
    by (simp_all add: cycle0_def onAir_def onAirNoId_def idle_def)
  have run: "pollCycle config0 (getLocalization ''en'') 5 ?c idle =
    streamStarted config0 (getLocalization ''en'') ?c (snapshot 50)
      (if lastWasLive idle then idle else idle\<lparr>lastWasLive := True\<rparr>)
      [GetStreamInfo (Twitch.Channel (Twitch config0)) (ClientID (Twitch config0))
              (ClientSecret (Twitch config0)) (Language config0)]"
    using pre by (rule start_poll)
  have chat: "ChatID (Telegram config0) = Some 42" "broadcaster ?c = Inr ''123''"
    "telegramReplies ?c = (\<lambda>k. accepted None)"
    by (simp_all add: config0_def cycle0_def onAir_def onAirNoId_def)
  show ?thesis
    unfolding run sessionOf_def deliveriesOf_def
    by (simp add: streamStarted_def Let_def chat retry_first_attempt idle_def)
qed

lemma streamOnAir_counter:
  assumes "streamOnAir cfg loc n c info s st fx = Some (Next st' fx')"
  shows "\<exists>s'. session st' = Some s' \<and>
           (UpdateCounter s' = 0
            \<or> UpdateCounter s' = int64 (UpdateCounter s + 1) \<and> UpdateCounter s' < n)"
proof (cases "n \<le> int64 (UpdateCounter s + 1)
         \<or> (StreamInfo.Game info \<noteq> StreamSession.Game s \<and> StreamSession.Game s \<noteq> [])")
  case False
  let ?polled = "s\<lparr>ViewerHistory := ViewerHistory s @
                         [\<lparr>Timestamp = clock c 0, Count = StreamInfo.Viewers info\<rparr>],
                       UpdateCounter := int64 (UpdateCounter s + 1)\<rparr>"
  have "streamOnAir cfg loc n c info s st fx =
         Some (Next (st\<lparr>session := Some ?polled\<rparr>) (fx @ [Sleep (CheckInterval cfg)]))"
    using False by (intro streamOnAir_idle) simp_all
  then show ?thesis using assms False by auto
next
  case True
  show ?thesis
  proof (cases "ChatID (Telegram cfg)")
    case None
    then show ?thesis using assms streamOnAir_panics [OF True None] by simp
  next
    case (Some chatID)
    show ?thesis
      using assms True
      by (subst (asm) streamOnAir_refresh [OF refl _ Some refl refl])
         (auto split: option.splits)
  qed
qed

lemma sentinel_without_session:
  assumes "\<not> ctxDoneAtTop c" and "sentinel c" and "session st = None"
  shows "pollCycle cfg loc n c st =
         Some (Next (if lastWasLive st then st\<lparr>lastWasLive := False\<rparr> else st)
                 [RemoveFile ''simulate_end'', Sleep (CheckInterval cfg)])"
  using assms by (simp add: pollCycle_def Let_def)

lemma offline_without_session:
  assumes "\<not> ctxDoneAtTop c" and "\<not> sentinel c" and "streamInfo c = Inr None"
    and "session st = None"
  shows "pollCycle cfg loc n c st =
         Some (Next (if lastWasLive st then st\<lparr>lastWasLive := False\<rparr> else st)
                 [GetStreamInfo (Twitch.Channel (Twitch cfg)) (ClientID (Twitch cfg))
                    (ClientSecret (Twitch cfg)) (Language cfg),
                  Sleep (CheckInterval cfg)])"
  using assms by (simp add: pollCycle_def Let_def)

lemma lookup_fails:
  assumes "\<not> ctxDoneAtTop c" and "\<not> sentinel c" and "streamInfo c = Inl err"
  shows "pollCycle cfg loc n c st =
         Some (Next st
                 [GetStreamInfo (Twitch.Channel (Twitch cfg)) (ClientID (Twitch cfg))
                    (ClientSecret (Twitch cfg)) (Language cfg),
                  Sleep (CheckInterval cfg)])"
  using assms by (simp add: pollCycle_def)

lemma pollCycle_counter:
  assumes "pollCycle cfg loc n c st = Some (Next st' fx)"
    and "n < 2 ^ 63"
    and "\<forall>s. session st = Some s \<longrightarrow> 0 \<le> UpdateCounter s \<and> UpdateCounter s < max 1 n"
  shows "\<forall>s. session st' = Some s \<longrightarrow> 0 \<le> UpdateCounter s \<and> UpdateCounter s < max 1 n"
proof (cases "ctxDoneAtTop c")
  case True
  then show ?thesis using assms(1) by (simp add: pollCycle_def)
next
  case top: False
  show ?thesis
  proof (cases "sentinel c")
    case True
    show ?thesis
    proof (cases "session st")
      case None
      then show ?thesis
        using assms(1) sentinel_without_session [OF top True None, of cfg loc n]
        by (auto split: if_splits)
    next
      case (Some s)
      then show ?thesis
        using assms(1,3) sentinel_keeps_session [OF top True Some, of cfg loc n] by simp
    qed
  next
    case no: False
    show ?thesis
    proof (cases "streamInfo c")
      case (Inl err)
      then show ?thesis using assms(1,3) lookup_fails [OF top no Inl, of cfg loc n st] by simp
    next
      case (Inr info)
      show ?thesis
      proof (cases info; cases "session st")
        assume "info = None" and none: "session st = None"
        then show ?thesis
          using assms(1) offline_without_session [OF top no _ none, of cfg loc n] Inr
          by (auto split: if_splits)
      next
        fix s assume "info = None" "session st = Some s"
        then have "session st' = None"
          using assms(1) offline_poll [OF top no _ \<open>session st = Some s\<close>, of cfg loc n] Inr
          by (auto elim!: streamEnded_cases)
        then show ?thesis by simp
      next
        fix i assume i: "info = Some i" and none: "session st = None"
        let ?st = "if lastWasLive st then st else st\<lparr>lastWasLive := True\<rparr>"
        have "streamStarted cfg loc c i ?st
           [GetStreamInfo (Twitch.Channel (Twitch cfg)) (ClientID (Twitch cfg))
              (ClientSecret (Twitch cfg)) (Language cfg)] = Some (Next st' fx)"
          using assms(1) start_poll [OF top no _ none, of i cfg loc n] Inr i by simp
        moreover have "session ?st = None" using none by simp
        ultimately have "\<forall>s'. session st' = Some s' \<longrightarrow> UpdateCounter s' = 0"
          using streamStarted_session by blast
        then show ?thesis by auto
      next
        fix i s assume i: "info = Some i" and s: "session st = Some s"
        let ?st = "if lastWasLive st then st else st\<lparr>lastWasLive := True\<rparr>"
        have "streamOnAir cfg loc n c i s ?st
           [GetStreamInfo (Twitch.Channel (Twitch cfg)) (ClientID (Twitch cfg))
              (ClientSecret (Twitch cfg)) (Language cfg)] = Some (Next st' fx)"
          using assms(1) live_poll [OF top no _ s, of i cfg loc n] Inr i by simp
        then obtain s' where s': "session st' = Some s'"
          "UpdateCounter s' = 0
            \<or> UpdateCounter s' = int64 (UpdateCounter s + 1) \<and> UpdateCounter s' < n"
          using streamOnAir_counter by blast
        have old: "0 \<le> UpdateCounter s" "UpdateCounter s < max 1 n" using assms(3) s by auto
        then have "int64 (UpdateCounter s + 1) = UpdateCounter s + 1"
          using assms(2) by (intro int64_small) auto
        then show ?thesis using s' old by auto
      qed
    qed
  qed
qed

lemma iterate_step:
  assumes "iterate cfg loc n st fx (c # cs) = Some (Next st' fx')"
  obtains st1 fx1 where "pollCycle cfg loc n c st = Some (Next st1 fx1)"
    and "iterate cfg loc n st1 (fx @ fx1) cs = Some (Next st' fx')"
proof (cases "pollCycle cfg loc n c st")
  case None
  then show thesis using assms by simp
next
  case (Some r)
  show thesis
  proof (cases r)
    case Return
    then show thesis using assms Some by simp
  next
    case Panic
    then show thesis using assms Some by simp
  next
    case (Next st1 fx1)
    then show thesis using assms Some that by simp
  qed
qed

lemma iterate_counter:
  assumes "n < 2 ^ 63"
  shows "iterate cfg loc n st fx cs = Some (Next st' fx') \<Longrightarrow>
         (\<forall>s. session st = Some s \<longrightarrow> 0 \<le> UpdateCounter s \<and> UpdateCounter s < max 1 n) \<Longrightarrow>
         (\<forall>s. session st' = Some s \<longrightarrow> 0 \<le> UpdateCounter s \<and> UpdateCounter s < max 1 n)"
proof (induction cs arbitrary: st fx)
  case Nil
  then show ?case by simp
next
  case (Cons c cs)
  from Cons.prems(1) obtain st1 fx1 where
    one: "pollCycle cfg loc n c st = Some (Next st1 fx1)"
    and rest: "iterate cfg loc n st1 (fx @ fx1) cs = Some (Next st' fx')"
    by (rule iterate_step)
  have "\<forall>s. session st1 = Some s \<longrightarrow> 0 \<le> UpdateCounter s \<and> UpdateCounter s < max 1 n"
    using one assms Cons.prems(2) by (rule pollCycle_counter)
  with rest show ?case by (rule Cons.IH)
qed

lemma checksPerUpdate_div:
  assumes "0 < CheckInterval cfg" and "0 < UpdateInterval cfg" and "UpdateInterval cfg * 60 < 2 ^ 63"
  shows "checksPerUpdate cfg = UpdateInterval cfg * 60 div CheckInterval cfg"
proof -
  have a: "int64 (UpdateInterval cfg * 60) = UpdateInterval cfg * 60"
    using assms by (intro int64_small) auto
  have "UpdateInterval cfg * 60 div CheckInterval cfg \<le> UpdateInterval cfg * 60"
    using zdiv_mono2 [of "UpdateInterval cfg * 60" 1 "CheckInterval cfg"] assms by simp
  moreover have "0 \<le> UpdateInterval cfg * 60 div CheckInterval cfg"
    using assms by (simp add: pos_imp_zdiv_nonneg_iff)
  ultimately have "int64 (UpdateInterval cfg * 60 div CheckInterval cfg) =
                   UpdateInterval cfg * 60 div CheckInterval cfg"
    using assms(3) by (intro int64_small) auto
  then show ?thesis using assms a by (simp add: checksPerUpdate_def signed_divide_int_def)
qed

text \<open>
  C6, amended: for positive intervals, the update counter of every state that the loop
  reaches is not negative; every refresh that ends, whatever the outcome of its delivery,
  leaves the counter at 0, which lies in the interval from 0 up to and excluding the
  threshold provided the threshold is at least 1; and the threshold is the integer
  quotient of the update interval in seconds by the check interval, as long as the
  product does not overflow.
\<close>

theorem update_counter_after_refresh:
  assumes "0 < CheckInterval cfg" and "0 < UpdateInterval cfg"
    and "monitorLoop cfg cs = Some (Next st fx)"
  shows
    "(\<forall>s. session st = Some s \<longrightarrow> 0 \<le> UpdateCounter s)
     \<and> (\<forall>c info s st' fx'.
           \<not> ctxDoneAtTop c \<and> \<not> sentinel c \<and> streamInfo c = Inr (Some info)
           \<and> session st = Some s
           \<and> (checksPerUpdate cfg \<le> int64 (UpdateCounter s + 1)
              \<or> (StreamInfo.Game info \<noteq> StreamSession.Game s \<and> StreamSession.Game s \<noteq> []))
           \<and> pollCycle cfg (getLocalization (Language cfg)) (checksPerUpdate cfg) c st =
               Some (Next st' fx')
           \<longrightarrow> (\<exists>s'. session st' = Some s' \<and> UpdateCounter s' = 0
                   \<and> (1 \<le> checksPerUpdate cfg \<longrightarrow>
                        0 \<le> UpdateCounter s' \<and> UpdateCounter s' < checksPerUpdate cfg)))
     \<and> (UpdateInterval cfg * 60 < 2 ^ 63 \<longrightarrow>
          checksPerUpdate cfg = UpdateInterval cfg * 60 div CheckInterval cfg)"
proof (intro conjI allI impI)
  have run: "iterate cfg (getLocalization (Language cfg)) (checksPerUpdate cfg)
               \<lparr>session = None, lastWasLive = False\<rparr> [] cs = Some (Next st fx)"
    using assms(1,3) by (simp add: monitorLoop_def)
  have "checksPerUpdate cfg < 2 ^ 63"
    using int64_range by (simp add: checksPerUpdate_def)
  then have "\<forall>s. session st = Some s \<longrightarrow>
               0 \<le> UpdateCounter s \<and> UpdateCounter s < max 1 (checksPerUpdate cfg)"
    using run by (rule iterate_counter) simp
  then show "\<And>s. session st = Some s \<Longrightarrow> 0 \<le> UpdateCounter s" by simp
next
  fix c info s st' fx'
  assume a: "\<not> ctxDoneAtTop c \<and> \<not> sentinel c \<and> streamInfo c = Inr (Some info)
           \<and> session st = Some s
           \<and> (checksPerUpdate cfg \<le> int64 (UpdateCounter s + 1)
              \<or> (StreamInfo.Game info \<noteq> StreamSession.Game s \<and> StreamSession.Game s \<noteq> []))
           \<and> pollCycle cfg (getLocalization (Language cfg)) (checksPerUpdate cfg) c st =
               Some (Next st' fx')"
  let ?st = "if lastWasLive st then st else st\<lparr>lastWasLive := True\<rparr>"
  let ?loc = "getLocalization (Language cfg)"
  let ?fx = "[GetStreamInfo (Twitch.Channel (Twitch cfg)) (ClientID (Twitch cfg))
              (ClientSecret (Twitch cfg)) (Language cfg)]"
  have on: "streamOnAir cfg ?loc (checksPerUpdate cfg) c info s ?st ?fx = Some (Next st' fx')"
    using a live_poll [of c info st s cfg ?loc "checksPerUpdate cfg"] by simp
  have due: "checksPerUpdate cfg \<le> int64 (UpdateCounter s + 1)
              \<or> (StreamInfo.Game info \<noteq> StreamSession.Game s \<and> StreamSession.Game s \<noteq> [])"
    using a by simp
  have "\<exists>s'. session st' = Some s' \<and> UpdateCounter s' = 0"
  proof (cases "ChatID (Telegram cfg)")
    case None
    then show ?thesis using on streamOnAir_panics [OF due None] by simp
  next
    case (Some chatID)
    show ?thesis
      using on due
      by (subst (asm) streamOnAir_refresh [OF refl _ Some refl refl])
         (auto split: option.splits)
  qed
  then show "\<exists>s'. session st' = Some s' \<and> UpdateCounter s' = 0
                   \<and> (1 \<le> checksPerUpdate cfg \<longrightarrow>
                        0 \<le> UpdateCounter s' \<and> UpdateCounter s' < checksPerUpdate cfg)"
    by auto
next
  assume "UpdateInterval cfg * 60 < 2 ^ 63"
  then show "checksPerUpdate cfg = UpdateInterval cfg * 60 div CheckInterval cfg"
    using assms(1,2) by (intro checksPerUpdate_div)
qed



lemma start_evaluated:
  assumes "ChatID (Telegram cfg) = Some chatID"
  shows "\<exists>fx. pollCycle cfg loc n onAir idle = Some (Next live fx) \<and> deliveries fx = [(1, None)]"
proof -
  have pre: "\<not> ctxDoneAtTop onAir" "\<not> sentinel onAir" "streamInfo onAir = Inr (Some (snapshot 50))"
    "session idle = None"
    by (simp_all add: onAir_def cycle0_def idle_def)
  have world: "broadcaster onAir = Inr ''123''" "telegramReplies onAir = (\<lambda>k. accepted (Some 7))"
    "clock onAir = (\<lambda>k. 0)"
    by (simp_all add: onAir_def cycle0_def)
  have seeded: "\<lparr>MessageID = 7, StartTime = 0, Game = StreamInfo.Game (snapshot 50),
          Title = StreamInfo.Title (snapshot 50), Tags = StreamInfo.Tags (snapshot 50),
          BroadcasterID = ''123'',
          ViewerHistory = [\<lparr>Timestamp = 0, Count = StreamInfo.Viewers (snapshot 50)\<rparr>],
          UpdateCounter = 0\<rparr> = session0"
    by (simp add: session0_def snapshot_def samples_def)
  show ?thesis
    unfolding start_poll [OF pre]
    by (simp add: streamStarted_def Let_def assms world retry_first_attempt seeded)
       (simp add: idle_def live_def)
qed

lemma editPhotoMessage_accepted [simp]:
  "editPhotoMessage token chatID messageID photoURL caption buttonURL buttonText (accepted result) =
   None"
  by (simp add: editPhotoMessage_def accepted_def)

lemma edit_first_attempt:
  "retryWithBackoff
     (attempt (\<lambda>x. ((), editPhotoMessage token chatID messageID photoURL caption buttonURL
                          buttonText x)))
     timeAfter (world0 (\<lambda>k. accepted result) cs ()) =
   Some (None, \<lparr>replies = (\<lambda>k. accepted result), ctxDone = cs, invocations = 1, waits = [],
                captured = ()\<rparr>)"
  using retry_first_attempt
          [of "\<lambda>x. ((), editPhotoMessage token chatID messageID photoURL caption buttonURL
                          buttonText x)" "\<lambda>k. accepted result" cs "()"]
  by simp

lemma refresh_evaluated:
  assumes "ChatID (Telegram cfg) = Some chatID"
    and "n \<le> 1"
  shows "\<exists>fx s. pollCycle cfg loc n onAir live = Some (Next (live\<lparr>session := Some s\<rparr>) fx)
           \<and> UpdateCounter s = 0 \<and> deliveries fx = [(1, None)]"
proof -
  have pre: "\<not> ctxDoneAtTop onAir" "\<not> sentinel onAir" "streamInfo onAir = Inr (Some (snapshot 50))"
    "session live = Some session0"
    by (simp_all add: onAir_def cycle0_def live_def)
  have due: "n \<le> UpdateCounter (session0\<lparr>ViewerHistory := ViewerHistory session0 @
                         [\<lparr>Timestamp = clock onAir 0, Count = StreamInfo.Viewers (snapshot 50)\<rparr>],
                       UpdateCounter := int64 (UpdateCounter session0 + 1)\<rparr>)
         \<or> (StreamInfo.Game (snapshot 50) \<noteq> StreamSession.Game session0
            \<and> StreamSession.Game session0 \<noteq> [])"
    using assms(2) by (simp add: session0_def int64_small)
  have world: "telegramReplies onAir = (\<lambda>k. accepted (Some 7))"
    by (simp add: onAir_def cycle0_def)
  show ?thesis
    unfolding live_poll [OF pre]
    by (subst streamOnAir_refresh [OF refl due assms(1) refl refl])
       (simp add: world edit_first_attempt live_def)
qed


lemma two_polls_on_air:
  assumes "ChatID (Telegram cfg) = Some chatID" and "CheckInterval cfg \<noteq> 0"
    and "checksPerUpdate cfg \<le> 1"
  shows "sessionOf (monitorLoop cfg [onAir]) = Some session0"
    and "counterOf (monitorLoop cfg [onAir, onAir]) = Some 0"
    and "deliveriesOf (monitorLoop cfg [onAir, onAir]) = [(1, None), (1, None)]"
proof -
  let ?loc = "getLocalization (Language cfg)"
  let ?n = "checksPerUpdate cfg"
  obtain fx1 where p1: "pollCycle cfg ?loc ?n onAir idle = Some (Next live fx1)"
    and d1: "deliveries fx1 = [(1, None)]"
    using start_evaluated [OF assms(1)] by blast
  obtain fx2 s where p2: "pollCycle cfg ?loc ?n onAir live = Some (Next (live\<lparr>session := Some s\<rparr>) fx2)"
    and s: "UpdateCounter s = 0" and d2: "deliveries fx2 = [(1, None)]"
    using refresh_evaluated [OF assms(1,3)] by blast
  have one: "monitorLoop cfg [onAir] = Some (Next live fx1)"
    using assms(2) p1 by (simp add: monitorLoop_def idle_def)
  have two: "monitorLoop cfg [onAir, onAir] = Some (Next (live\<lparr>session := Some s\<rparr>) (fx1 @ fx2))"
    using assms(2) p1 p2 by (simp add: monitorLoop_def idle_def)
  show "sessionOf (monitorLoop cfg [onAir]) = Some session0"
    using one by (simp add: sessionOf_def live_def)
  show "counterOf (monitorLoop cfg [onAir, onAir]) = Some 0"
    using two s by (simp add: counterOf_def sessionOf_def)
  show "deliveriesOf (monitorLoop cfg [onAir, onAir]) = [(1, None), (1, None)]"
    using two d1 d2 by (simp add: deliveriesOf_def deliveries_append)
qed

lemma checksPerUpdate_config1: "checksPerUpdate config1 = 0"
  by (simp add: checksPerUpdate_def config1_def config0_def int64_def signed_divide_int_def)

lemma checksPerUpdate_config2: "checksPerUpdate config2 = 1"
  by (simp add: checksPerUpdate_def config2_def config0_def int64_def signed_divide_int_def)

text \<open>
  C6, as stated, fails: with an update interval of 1 minute and a check interval of 61
  seconds the threshold is 0, every poll refreshes, and the counter after the refresh, 0,
  is not in the empty interval from 0 to the threshold.
\<close>

theorem refresh_counter_outside_interval:
  "0 < CheckInterval config1 \<and> 0 < UpdateInterval config1
   \<and> checksPerUpdate config1 = 0
   \<and> sessionOf (monitorLoop config1 [onAir]) = Some session0
   \<and> counterOf (monitorLoop config1 [onAir, onAir]) = Some 0
   \<and> deliveriesOf (monitorLoop config1 [onAir, onAir]) = [(1, None), (1, None)]
   \<and> counterOf (monitorLoop config1 [onAir, onAir]) \<notin> Some ` {0..<checksPerUpdate config1}"
proof -
  have chat: "ChatID (Telegram config1) = Some 42" "CheckInterval config1 \<noteq> 0"
    "0 < CheckInterval config1" "0 < UpdateInterval config1"
    by (simp_all add: config1_def config0_def)
  have n: "checksPerUpdate config1 \<le> 1" by (simp add: checksPerUpdate_config1)
  show ?thesis
    using two_polls_on_air [OF chat(1,2) n] chat(3,4)
    by (simp add: checksPerUpdate_config1)
qed

theorem update_counter_after_refresh_witness:
  "checksPerUpdate config2 = 1
   \<and> sessionOf (monitorLoop config2 [onAir]) = Some session0
   \<and> 0 \<le> UpdateCounter session0
   \<and> counterOf (pollCycle config2 (getLocalization (Language config2)) (checksPerUpdate config2)
                  onAir live) = Some 0"
proof -
  let ?loc = "getLocalization (Language config2)"
  have cfg: "ChatID (Telegram config2) = Some 42" "0 < CheckInterval config2"
    "0 < UpdateInterval config2" "UpdateInterval config2 * 60 < 2 ^ 63"
    "UpdateInterval config2 * 60 div CheckInterval config2 = 1"
    by (simp_all add: config2_def config0_def)
  obtain fx1 where p1: "pollCycle config2 ?loc (checksPerUpdate config2) onAir idle =
      Some (Next live fx1)"
    using start_evaluated [OF cfg(1)] by blast
  then have reach: "monitorLoop config2 [onAir] = Some (Next live fx1)"
    using cfg(2) by (simp add: monitorLoop_def idle_def)
  note inst = update_counter_after_refresh [OF cfg(2,3) reach]
  have n: "checksPerUpdate config2 = 1" using inst cfg(4,5) by simp
  have s0: "session live = Some session0" by (simp add: live_def)
  then have c0: "0 \<le> UpdateCounter session0" using inst by blast
  obtain fx2 s where p2: "pollCycle config2 ?loc (checksPerUpdate config2) onAir live =
      Some (Next (live\<lparr>session := Some s\<rparr>) fx2)"
  proof -
    have "checksPerUpdate config2 \<le> 1" using n by simp
    then show thesis
      using refresh_evaluated [OF cfg(1), of "checksPerUpdate config2" ?loc] that by blast
  qed
  have pre: "\<not> ctxDoneAtTop onAir" "\<not> sentinel onAir" "streamInfo onAir = Inr (Some (snapshot 50))"
    by (simp_all add: onAir_def cycle0_def)
  have due: "checksPerUpdate config2 \<le> int64 (UpdateCounter session0 + 1)"
    using n by (simp add: session0_def int64_small)
  have "\<exists>s'. session (live\<lparr>session := Some s\<rparr>) = Some s' \<and> UpdateCounter s' = 0
           \<and> (1 \<le> checksPerUpdate config2 \<longrightarrow>
                0 \<le> UpdateCounter s' \<and> UpdateCounter s' < checksPerUpdate config2)"
    using inst pre s0 due p2 by blast
  then have "UpdateCounter s = 0" by simp
  then have "counterOf (pollCycle config2 ?loc (checksPerUpdate config2) onAir live) = Some 0"
    using p2 by (simp add: counterOf_def sessionOf_def)
  then show ?thesis using n reach c0 by (simp add: sessionOf_def live_def)
qed

end
